theory Spec2Isabelle
  imports Complex_Main "HOL-Library.Multiset"
begin

section \<open>JavaScript strings\<close>

text \<open>
  A JavaScript string is a finite sequence of code units; it is modelled as a \<open>string\<close>
  (a list of characters).  The string methods the services use compare code units only, so
  they are the list operations below.
\<close>

definition startsWith :: "string \<Rightarrow> string \<Rightarrow> bool" where
  \<comment> \<open>\<open>s.startsWith(t)\<close>\<close>
  "startsWith s t = (take (length t) s = t)"

definition endsWith :: "string \<Rightarrow> string \<Rightarrow> bool" where
  \<comment> \<open>\<open>s.endsWith(t)\<close>\<close>
  "endsWith s t = (length t \<le> length s \<and> drop (length s - length t) s = t)"

fun str_includes :: "string \<Rightarrow> string \<Rightarrow> bool" where
  \<comment> \<open>\<open>s.includes(t)\<close>: \<open>t\<close> occurs in \<open>s\<close> as a contiguous substring\<close>
  "str_includes [] t = (t = [])"
| "str_includes (c # s) t = (startsWith (c # s) t \<or> str_includes s t)"

definition stripTrailingSlash :: "string \<Rightarrow> string" where
  \<comment> \<open>\<open>filePath.replace(/\/$/, '')\<close>: one slash at the very end is removed\<close>
  "stripTrailingSlash s = (if s \<noteq> [] \<and> last s = CHR ''/'' then butlast s else s)"

fun split_on :: "char \<Rightarrow> string \<Rightarrow> string list" where
  \<comment> \<open>\<open>s.split(sep)\<close> for a separator of one code unit\<close>
  "split_on sep [] = [[]]"
| "split_on sep (c # cs) =
     (if c = sep then [] # split_on sep cs
      else (case split_on sep cs of
              [] \<Rightarrow> [[c]]
            | seg # segs \<Rightarrow> (c # seg) # segs))"

section \<open>Configuration and the library functions the services call\<close>

datatype LogLevel = none | debug | info | warn | error

text \<open>
  The configuration object behind \<open>ConfigProvider\<close>.  It is read through getters and never
  written after construction.  The numeric settings are JavaScript numbers.  The batch size
  is modelled for the integral values it holds; the two settings of the logger, which the
  loader accepts as any positive number, are modelled as rational numbers.
\<close>

record Configuration =
  allowedDirectories :: "string list"
  protectedPatterns :: "string list"
  logLevel :: LogLevel
  logDirectory :: string
  maxBatchSize :: nat
  maxLogFileSize :: "rat option"
  maxLogFiles :: "rat option"

text \<open>
  \<open>minimatch\<close> and Node's \<open>path\<close> module are libraries outside the repository.  They are
  parameters of the model: every theorem below holds for whatever total functions they are.
  The third argument of \<open>minimatch\<close> is the option \<open>matchBase\<close>.  A call that throws (as
  \<open>minimatch\<close> does on a pattern beyond its length limit) is outside the model.
\<close>

record node_lib =
  minimatch :: "string \<Rightarrow> string \<Rightarrow> bool \<Rightarrow> bool"
  basename :: "string \<Rightarrow> string"
  relative :: "string \<Rightarrow> string \<Rightarrow> string"
  isAbsolute :: "string \<Rightarrow> bool"
  join :: "string \<Rightarrow> string \<Rightarrow> string"

section \<open>ProtectionEngine\<close>

text \<open>
  The state of a \<open>ProtectionEngineImpl\<close>: \<open>patternCache\<close> is the \<open>Map<string, boolean>\<close>,
  \<open>fileWatchers\<close> the directories that have a live watcher.
\<close>

record engine =
  patternCache :: "string \<rightharpoonup> bool"
  fileWatchers :: "string list"

definition dirMatches :: "string \<Rightarrow> string \<Rightarrow> bool" where
  \<comment> \<open>the predicate \<open>filePath === dir || filePath.startsWith(dir + '/')\<close>\<close>
  "dirMatches filePath dir = (filePath = dir \<or> startsWith filePath (dir @ ''/''))"

definition isWithinAllowedDirectories :: "Configuration \<Rightarrow> string \<Rightarrow> bool" where
  "isWithinAllowedDirectories cfg filePath =
     list_ex (dirMatches filePath) (allowedDirectories cfg)"

text \<open>
  \<open>sort((a, b) => b.length - a.length)\<close> is a stable sort that puts longer strings first;
  \<open>sort_key\<close> is the stable insertion sort of the list library.
\<close>

definition getMatchingAllowedDirectory :: "Configuration \<Rightarrow> string \<Rightarrow> string option" where
  "getMatchingAllowedDirectory cfg filePath =
     (let matches = sort_key (\<lambda>d. - int (length d))
                      (filter (dirMatches filePath) (allowedDirectories cfg))
      in case matches of [] \<Rightarrow> None | m # _ \<Rightarrow> Some m)"

definition patternMatches :: "node_lib \<Rightarrow> Configuration \<Rightarrow> string \<Rightarrow> string \<Rightarrow> bool" where
  \<comment> \<open>the callback handed to \<open>some\<close> in \<open>isProtected\<close>\<close>
  "patternMatches L cfg filePath pattern =
     (let normalizedPath = stripTrailingSlash filePath in
      if minimatch L normalizedPath pattern True then True
      else if minimatch L (basename L normalizedPath) pattern False then True
      else if (str_includes pattern ''/'' \<or> str_includes pattern ''**'') \<and>
              (case getMatchingAllowedDirectory cfg normalizedPath of
                 None \<Rightarrow> False
               | Some matchingDir \<Rightarrow>
                   minimatch L (relative L matchingDir normalizedPath) pattern False)
      then True
      else list_ex (\<lambda>segment. minimatch L segment pattern False)
             (split_on CHR ''/'' normalizedPath))"

definition evaluatePatterns :: "node_lib \<Rightarrow> Configuration \<Rightarrow> string \<Rightarrow> bool" where
  \<comment> \<open>\<open>getProtectedPatterns().some(...)\<close>\<close>
  "evaluatePatterns L cfg filePath =
     list_ex (patternMatches L cfg filePath) (protectedPatterns cfg)"

definition isProtected :: "node_lib \<Rightarrow> Configuration \<Rightarrow> engine \<Rightarrow> string \<Rightarrow> bool \<times> engine" where
  "isProtected L cfg e filePath =
     (if \<not> isWithinAllowedDirectories cfg filePath then (True, e)
      else (case patternCache e filePath of
              Some cachedResult \<Rightarrow> (cachedResult, e)
            | None \<Rightarrow>
                (let result = evaluatePatterns L cfg filePath
                 in (result, e\<lparr>patternCache := (patternCache e)(filePath \<mapsto> result)\<rparr>))))"

definition getProtectedPatterns :: "Configuration \<Rightarrow> string list" where
  "getProtectedPatterns cfg = protectedPatterns cfg"

definition validateAllowedDirectories :: "(string \<Rightarrow> bool) \<Rightarrow> Configuration \<Rightarrow> string list" where
  \<comment> \<open>the first argument is \<open>existsSync\<close> on the disk of the moment\<close>
  "validateAllowedDirectories ex cfg = filter ex (allowedDirectories cfg)"

definition invalidateCache :: "engine \<Rightarrow> string \<Rightarrow> engine" where
  \<comment> \<open>every cached key that contains the changed path, or is contained in it, is deleted\<close>
  "invalidateCache e changedPath =
     e\<lparr>patternCache :=
         (\<lambda>cachedPath.
            if str_includes cachedPath changedPath \<or> str_includes changedPath cachedPath then None
            else patternCache e cachedPath)\<rparr>"

definition onWatchEvent :: "node_lib \<Rightarrow> engine \<Rightarrow> string \<Rightarrow> string option \<Rightarrow> engine" where
  \<comment> \<open>the listener given to \<open>fs.watch(dir, ...)\<close>; \<open>filename\<close> may be null\<close>
  "onWatchEvent L e dir filename =
     (case filename of None \<Rightarrow> e | Some f \<Rightarrow> invalidateCache e (join L dir f))"

definition initializeFileWatchers :: "(string \<Rightarrow> bool) \<Rightarrow> (string \<Rightarrow> bool) \<Rightarrow> Configuration \<Rightarrow> string list" where
  \<comment> \<open>\<open>ex\<close> is \<open>existsSync\<close>, \<open>watchable d\<close> says that \<open>fs.watch(d)\<close> does not throw; one throw
      leaves the field at its initial empty array\<close>
  "initializeFileWatchers ex watchable cfg =
     (let ds = filter ex (allowedDirectories cfg)
      in if list_all watchable ds then ds else [])"

definition newEngine :: "(string \<Rightarrow> bool) \<Rightarrow> (string \<Rightarrow> bool) \<Rightarrow> Configuration \<Rightarrow> engine" where
  "newEngine ex watchable cfg =
     \<lparr>patternCache = Map.empty, fileWatchers = initializeFileWatchers ex watchable cfg\<rparr>"

definition dispose :: "engine \<Rightarrow> engine" where
  "dispose e = e\<lparr>fileWatchers := [], patternCache := Map.empty\<rparr>"

text \<open>
  The invariant of the decision cache: a stored key lies within the allowed directories and
  its stored value is what the patterns evaluate to on that key.
\<close>

definition cache_ok :: "node_lib \<Rightarrow> Configuration \<Rightarrow> engine \<Rightarrow> bool" where
  "cache_ok L cfg e =
     (\<forall>k v. patternCache e k = Some v \<longrightarrow>
        isWithinAllowedDirectories cfg k \<and> v = evaluatePatterns L cfg k)"

text \<open>The engine states a run can reach from a freshly constructed engine.\<close>

inductive reachable :: "node_lib \<Rightarrow> Configuration \<Rightarrow> engine \<Rightarrow> bool"
  for L :: node_lib and cfg :: Configuration where
  r_new: "reachable L cfg (newEngine ex watchable cfg)"
| r_isProtected: "reachable L cfg e \<Longrightarrow> reachable L cfg (snd (isProtected L cfg e p))"
| r_watch: "reachable L cfg e \<Longrightarrow> reachable L cfg (onWatchEvent L e dir filename)"
| r_dispose: "reachable L cfg e \<Longrightarrow> reachable L cfg (dispose e)"

section \<open>SafeDeletionService\<close>

record ValidationResult =
  valid :: bool
  reason :: "string option"
  matchedDirectory :: "string option"

record DeletionResult =
  success :: bool
  path :: "string option"
  err :: "string option"  \<comment> \<open>the field \<open>error\<close>: a filesystem-level failure\<close>
  why :: "string option"  \<comment> \<open>the field \<open>reason\<close>: a policy rejection\<close>

record BatchDeletionResult =
  deleted :: "string list"
  failed :: "(string \<times> string) list"  \<comment> \<open>\<open>{path, error}\<close>\<close>
  rejected :: "(string \<times> string) list"  \<comment> \<open>\<open>{path, reason}\<close>\<close>
  cancelled :: "bool option"
  batchReason :: "string option"  \<comment> \<open>the field \<open>reason\<close> of the batch result\<close>

record BatchValidationResult =
  batchValid :: bool  \<comment> \<open>the field \<open>valid\<close> of the batch validation\<close>
  validPaths :: "string list"
  invalidPaths :: "(string \<times> string) list"
  protectedPaths :: "(string \<times> string) list"

datatype outcome = Success | Failed | Rejected

text \<open>
  What the service does to the outside: the calls it makes on the filesystem and on the
  logger, in the order it issues them.
\<close>

datatype fs_call = ExistsSync string | Unlink string | Rmdir string

datatype log_call = LogDeletion string outcome | LogError string string

text \<open>
  The disk is a parameter: any type of disk states with any \<open>existsSync\<close>, \<open>unlink\<close> and
  \<open>rmdir\<close>.  A call of \<open>fs.unlink\<close> or \<open>fs.rmdir\<close> either resolves or rejects; a rejection
  carries \<open>Some message\<close> when the thrown value is an \<open>Error\<close> and \<open>None\<close> when it is not.
\<close>

datatype 'fs fs_result = Resolved 'fs | Threw "string option" 'fs

record 'fs fs_ops =
  existsSync :: "'fs \<Rightarrow> string \<Rightarrow> bool"
  unlink :: "'fs \<Rightarrow> string \<Rightarrow> 'fs fs_result"
  rmdir :: "'fs \<Rightarrow> string \<Rightarrow> 'fs fs_result"

record 'fs world =
  protectionEngine :: engine
  disk :: 'fs
  fsCalls :: "fs_call list"
  logCalls :: "log_call list"

definition validatePath :: "node_lib \<Rightarrow> Configuration \<Rightarrow> engine \<Rightarrow> string \<Rightarrow> ValidationResult \<times> engine" where
  "validatePath L cfg e filePath =
     (if \<not> isAbsolute L filePath then
        (\<lparr>valid = False, reason = Some ''Only absolute paths are accepted'',
          matchedDirectory = None\<rparr>, e)
      else (case getMatchingAllowedDirectory cfg filePath of
              None \<Rightarrow>
                (\<lparr>valid = False, reason = Some ''Path is outside allowed directories'',
                  matchedDirectory = None\<rparr>, e)
            | Some matchingDirectory \<Rightarrow>
                (case isProtected L cfg e filePath of
                   (True, e') \<Rightarrow>
                     (\<lparr>valid = False, reason = Some ''Path matches protected pattern'',
                       matchedDirectory = None\<rparr>, e')
                 | (False, e') \<Rightarrow>
                     (\<lparr>valid = True, reason = None,
                       matchedDirectory = Some matchingDirectory\<rparr>, e'))))"

definition errorMessage :: "string option \<Rightarrow> string" where
  \<comment> \<open>\<open>error instanceof Error ? error.message : 'Unknown error'\<close>\<close>
  "errorMessage thrown = (case thrown of Some m \<Rightarrow> m | None \<Rightarrow> ''Unknown error'')"

definition logCaught :: "string option \<Rightarrow> string \<Rightarrow> log_call list" where
  \<comment> \<open>\<open>if (error instanceof Error) logger.logError(error, context)\<close>\<close>
  "logCaught thrown context = (case thrown of Some m \<Rightarrow> [LogError m context] | None \<Rightarrow> [])"

definition deleteFile ::
  "node_lib \<Rightarrow> 'fs fs_ops \<Rightarrow> Configuration \<Rightarrow> 'fs world \<Rightarrow> string \<Rightarrow> DeletionResult \<times> 'fs world" where
  "deleteFile L F cfg w filePath =
     (case validatePath L cfg (protectionEngine w) filePath of (validation, e') \<Rightarrow>
      let w1 = w\<lparr>protectionEngine := e'\<rparr> in
      if \<not> valid validation then
        (\<lparr>success = False, path = Some filePath, err = None, why = reason validation\<rparr>,
         w1\<lparr>logCalls := logCalls w1 @ [LogDeletion filePath Rejected]\<rparr>)
      else
        let w2 = w1\<lparr>fsCalls := fsCalls w1 @ [ExistsSync filePath]\<rparr> in
        if \<not> existsSync F (disk w2) filePath then
          (\<lparr>success = False, path = Some filePath, err = Some ''File not found'', why = None\<rparr>,
           w2\<lparr>logCalls := logCalls w2 @ [LogDeletion filePath Failed]\<rparr>)
        else
          let w3 = w2\<lparr>fsCalls := fsCalls w2 @ [Unlink filePath]\<rparr> in
          (case unlink F (disk w3) filePath of
             Resolved d \<Rightarrow>
               (\<lparr>success = True, path = Some filePath, err = None, why = None\<rparr>,
                w3\<lparr>disk := d, logCalls := logCalls w3 @ [LogDeletion filePath Success]\<rparr>)
           | Threw thrown d \<Rightarrow>
               (\<lparr>success = False, path = Some filePath, err = Some (errorMessage thrown),
                 why = None\<rparr>,
                w3\<lparr>disk := d,
                   logCalls := logCalls w3 @ logCaught thrown (''deleteFile: '' @ filePath)\<rparr>)))"

definition deleteDirectory ::
  "node_lib \<Rightarrow> 'fs fs_ops \<Rightarrow> Configuration \<Rightarrow> 'fs world \<Rightarrow> string \<Rightarrow> DeletionResult \<times> 'fs world" where
  "deleteDirectory L F cfg w dirPath =
     (case validatePath L cfg (protectionEngine w) dirPath of (validation, e') \<Rightarrow>
      let w1 = w\<lparr>protectionEngine := e'\<rparr> in
      if \<not> valid validation then
        (\<lparr>success = False, path = Some dirPath, err = None, why = reason validation\<rparr>,
         w1\<lparr>logCalls := logCalls w1 @ [LogDeletion dirPath Rejected]\<rparr>)
      else
        let w2 = w1\<lparr>fsCalls := fsCalls w1 @ [ExistsSync dirPath]\<rparr> in
        if \<not> existsSync F (disk w2) dirPath then
          (\<lparr>success = False, path = Some dirPath, err = Some ''Directory not found'',
            why = None\<rparr>,
           w2\<lparr>logCalls := logCalls w2 @ [LogDeletion dirPath Failed]\<rparr>)
        else
          let w3 = w2\<lparr>fsCalls := fsCalls w2 @ [Rmdir dirPath]\<rparr> in
          (case rmdir F (disk w3) dirPath of
             Resolved d \<Rightarrow>
               (\<lparr>success = True, path = Some dirPath, err = None, why = None\<rparr>,
                w3\<lparr>disk := d, logCalls := logCalls w3 @ [LogDeletion dirPath Success]\<rparr>)
           | Threw thrown d \<Rightarrow>
               (\<lparr>success = False, path = Some dirPath, err = Some (errorMessage thrown),
                 why = None\<rparr>,
                w3\<lparr>disk := d,
                   logCalls := logCalls w3 @ logCaught thrown (''deleteDirectory: '' @ dirPath)\<rparr>)))"

text \<open>
  The loop of \<open>validateBatch\<close>, with the three arrays it pushes to as accumulators.
\<close>

fun validateBatch_loop ::
  "node_lib \<Rightarrow> Configuration \<Rightarrow> string list \<Rightarrow> BatchValidationResult \<Rightarrow> engine
     \<Rightarrow> BatchValidationResult \<times> engine" where
  "validateBatch_loop L cfg [] acc e = (acc, e)"
| "validateBatch_loop L cfg (filePath # rest) acc e =
     (case validatePath L cfg e filePath of (validation, e') \<Rightarrow>
      validateBatch_loop L cfg rest
        (if valid validation then acc\<lparr>validPaths := validPaths acc @ [filePath]\<rparr>
         else (case reason validation of
                 Some r \<Rightarrow>
                   if str_includes r ''protected''
                   then acc\<lparr>protectedPaths := protectedPaths acc @ [(filePath, r)]\<rparr>
                   else acc\<lparr>invalidPaths := invalidPaths acc @ [(filePath, r)]\<rparr>
               | None \<Rightarrow> acc\<lparr>invalidPaths := invalidPaths acc @ [(filePath, ''Invalid path'')]\<rparr>))
        e')"

definition validateBatch ::
  "node_lib \<Rightarrow> Configuration \<Rightarrow> engine \<Rightarrow> string list \<Rightarrow> BatchValidationResult \<times> engine" where
  "validateBatch L cfg e paths =
     (case validateBatch_loop L cfg paths
             \<lparr>batchValid = True, validPaths = [], invalidPaths = [], protectedPaths = []\<rparr> e of
        (acc, e') \<Rightarrow>
          (acc\<lparr>batchValid := (protectedPaths acc = [] \<and> invalidPaths acc = [])\<rparr>, e'))"

text \<open>
  The execution stage of \<open>deleteBatch\<close>.  \<open>deleteFile\<close> runs synchronously up to its call of
  \<open>fs.unlink\<close>, so the deletions are issued in the order of \<open>validPaths\<close>, and
  \<open>Promise.allSettled\<close> hands the results back in that order.  \<open>deleteFile\<close> catches every
  error, so each promise is fulfilled.  Here each deletion runs to its end before the next
  one starts.  In the code the calls overlap once their \<open>unlink\<close> is issued: every check of
  existence is made before any \<open>unlink\<close> has finished, so the entries may reach the logger in
  another order, and a path that is listed twice fails in \<open>unlink\<close> the second time, where it
  is found missing here.
\<close>

fun deleteAll ::
  "node_lib \<Rightarrow> 'fs fs_ops \<Rightarrow> Configuration \<Rightarrow> 'fs world \<Rightarrow> string list
     \<Rightarrow> (string \<times> DeletionResult) list \<times> 'fs world" where
  "deleteAll L F cfg w [] = ([], w)"
| "deleteAll L F cfg w (filePath # rest) =
     (case deleteFile L F cfg w filePath of (result, w') \<Rightarrow>
      case deleteAll L F cfg w' rest of (results, w'') \<Rightarrow>
        ((filePath, result) # results, w''))"

definition failureText :: "DeletionResult \<Rightarrow> string" where
  \<comment> \<open>\<open>deletionResult.error ?? deletionResult.reason ?? 'Unknown error'\<close>\<close>
  "failureText r =
     (case err r of Some m \<Rightarrow> m
      | None \<Rightarrow> (case why r of Some m \<Rightarrow> m | None \<Rightarrow> ''Unknown error''))"

fun digitsOf :: "nat \<Rightarrow> string" where
  \<comment> \<open>the decimal digits of a natural number, as a template literal prints it\<close>
  "digitsOf n =
     (if n < 10 then [char_of (48 + n)]
      else digitsOf (n div 10) @ [char_of (48 + n mod 10)])"

definition deleteBatch ::
  "node_lib \<Rightarrow> 'fs fs_ops \<Rightarrow> Configuration \<Rightarrow> 'fs world \<Rightarrow> string list
     \<Rightarrow> BatchDeletionResult \<times> 'fs world" where
  "deleteBatch L F cfg w paths =
     (if length paths > maxBatchSize cfg then
        (\<lparr>deleted = [], failed = [],
          rejected = map (\<lambda>p. (p, ''Batch size exceeds limit ('' @ digitsOf (maxBatchSize cfg) @ '')''))
                       paths,
          cancelled = Some True, batchReason = Some ''Batch size limit exceeded''\<rparr>, w)
      else
        (case validateBatch L cfg (protectionEngine w) paths of (validation, e') \<Rightarrow>
         let w1 = w\<lparr>protectionEngine := e'\<rparr> in
         if \<not> batchValid validation then
           (\<lparr>deleted = [], failed = [],
             rejected = invalidPaths validation @ protectedPaths validation,
             cancelled = Some True,
             batchReason = Some ''Batch contains protected or invalid paths''\<rparr>, w1)
         else
           (case deleteAll L F cfg w1 (validPaths validation) of (results, w2) \<Rightarrow>
              (\<lparr>deleted = map fst (filter (\<lambda>(p, r). success r) results),
                failed = map (\<lambda>(p, r). (p, failureText r))
                           (filter (\<lambda>(p, r). \<not> success r) results),
                rejected = [], cancelled = None, batchReason = None\<rparr>, w2))))"

section \<open>LoggingService\<close>

datatype operation = op_delete | op_list_protected | op_get_allowed

record AuditLog =
  timestamp :: nat
  operation :: operation
  paths :: "string list option"
  result :: outcome
  logReason :: "string option"  \<comment> \<open>the field \<open>reason\<close> of an audit entry\<close>
  requestId :: string

text \<open>
  The log directory on disk.  \<open>files\<close> lists the files by full path, in the order \<open>readdir\<close>
  reports them; \<open>broken\<close> says which calls fail; \<open>trace\<close> records the calls made.
\<close>

record logfile =
  mtime :: nat
  content :: string

datatype fsop = Mkdir string | Stat string | Readdir string | UnlinkFile string | AppendFile string

record logfs =
  files :: "(string \<times> logfile) list"
  broken :: "fsop \<Rightarrow> bool"
  trace :: "fsop list"

text \<open>
  What the clock and the random generator give at one reading: \<open>isoString\<close> is
  \<open>new Date().toISOString()\<close>, \<open>random36\<close> is \<open>Math.random().toString(36).substring(2, 8)\<close>,
  \<open>clockMs\<close> the time a file written at this reading gets as modification time.  The
  environment is a parameter \<open>E\<close>, a sequence of readings; \<open>tick\<close> counts the readings taken.
\<close>

record reading =
  isoString :: string
  random36 :: string
  clockMs :: nat

text \<open>
  The fields of the \<open>LoggingService\<close> that change, and the world it runs in.
\<close>

record logger =
  inMemoryLogs :: "AuditLog list"
  currentLogFile :: string
  currentLogFileSize :: nat

record lworld =
  service :: logger
  lfs :: logfs
  tick :: nat

definition pathJoin :: "string \<Rightarrow> string \<Rightarrow> string" where
  \<comment> \<open>\<open>path.join(dir, name)\<close> for a normalised directory and a plain file name\<close>
  "pathJoin dir name = dir @ ''/'' @ name"

definition childName :: "string \<Rightarrow> string \<Rightarrow> string option" where
  \<comment> \<open>the name under which \<open>readdir(dir)\<close> reports the file at path \<open>p\<close>, if it is a child\<close>
  "childName dir p =
     (if startsWith p (dir @ ''/'') \<and> CHR ''/'' \<notin> set (drop (length dir + 1) p)
      then Some (drop (length dir + 1) p) else None)"

definition called :: "fsop \<Rightarrow> logfs \<Rightarrow> logfs" where
  "called c fs = fs\<lparr>trace := trace fs @ [c]\<rparr>"

definition fs_stat :: "logfs \<Rightarrow> string \<Rightarrow> logfile option" where
  "fs_stat fs p = (if broken fs (Stat p) then None else map_of (files fs) p)"

definition fs_readdir :: "logfs \<Rightarrow> string \<Rightarrow> string list option" where
  "fs_readdir fs dir =
     (if broken fs (Readdir dir) then None
      else Some (List.map_filter (childName dir) (map fst (files fs))))"

definition fs_unlink :: "logfs \<Rightarrow> string \<Rightarrow> logfs option" where
  "fs_unlink fs p =
     (if broken fs (UnlinkFile p) \<or> map_of (files fs) p = None then None
      else Some (fs\<lparr>files := filter (\<lambda>(q, f). q \<noteq> p) (files fs)\<rparr>))"

definition fs_appendFile :: "logfs \<Rightarrow> string \<Rightarrow> string \<Rightarrow> nat \<Rightarrow> logfs option" where
  \<comment> \<open>appends to the file, creating it when it is absent; the empty path cannot be opened\<close>
  "fs_appendFile fs p data now =
     (if broken fs (AppendFile p) \<or> p = [] then None
      else (case map_of (files fs) p of
              None \<Rightarrow> Some (fs\<lparr>files := files fs @ [(p, \<lparr>mtime = now, content = data\<rparr>)]\<rparr>)
            | Some old \<Rightarrow>
                Some (fs\<lparr>files :=
                  map (\<lambda>(q, f). if q = p then (q, \<lparr>mtime = now, content = content f @ data\<rparr>)
                                else (q, f)) (files fs)\<rparr>)))"

definition dashed :: "string \<Rightarrow> string" where
  \<comment> \<open>\<open>.replace(/[:.]/g, '-')\<close>\<close>
  "dashed s = map (\<lambda>c. if c = CHR '':'' \<or> c = CHR ''.'' then CHR ''-'' else c) s"

definition freshLogFile :: "(nat \<Rightarrow> reading) \<Rightarrow> string \<Rightarrow> nat \<Rightarrow> string" where
  \<comment> \<open>the file name built from the clock and the random generator\<close>
  "freshLogFile E dir t =
     pathJoin dir (''safe-deletion-'' @ dashed (isoString (E t)) @ ''-'' @ random36 (E t) @ ''.log'')"

fun indexOf :: "'a list \<Rightarrow> 'a \<Rightarrow> int" where
  \<comment> \<open>\<open>xs.indexOf(x)\<close>, which is -1 when \<open>x\<close> does not occur\<close>
  "indexOf [] x = - 1"
| "indexOf (y # ys) x =
     (if x = y then 0 else (let i = indexOf ys x in if i < 0 then - 1 else i + 1))"

definition entryLevelIndex :: "AuditLog \<Rightarrow> int" where
  "entryLevelIndex logEntry =
     (if result logEntry = Failed then 3
      else if result logEntry = Rejected then 2
      else if (case logReason logEntry of Some r \<Rightarrow> startsWith r ''DEBUG:'' | None \<Rightarrow> False)
      then 0
      else 1)"

definition shouldLog :: "Configuration \<Rightarrow> AuditLog \<Rightarrow> bool" where
  "shouldLog cfg logEntry =
     (let logLevels = [debug, info, warn, error];
          configLevelIndex = indexOf logLevels (logLevel cfg)
      in entryLevelIndex logEntry \<ge> configLevelIndex)"

definition shouldRotateLog :: "Configuration \<Rightarrow> lworld \<Rightarrow> nat \<Rightarrow> bool" where
  "shouldRotateLog cfg w entrySize =
     (let maxSize = (case maxLogFileSize cfg of Some m \<Rightarrow> m | None \<Rightarrow> 10 * 1024 * 1024)
      in of_nat (currentLogFileSize (service w) + entrySize) > maxSize)"

definition isLogFileName :: "string \<Rightarrow> bool" where
  "isLogFileName file = (startsWith file ''safe-deletion-'' \<and> endsWith file ''.log'')"

fun statAll :: "logfs \<Rightarrow> string list \<Rightarrow> (string \<times> logfile) list option" where
  \<comment> \<open>\<open>Promise.all\<close> over \<open>fs.stat\<close>: one failing call rejects the whole\<close>
  "statAll fs [] = Some []"
| "statAll fs (p # ps) =
     (case fs_stat fs p of
        None \<Rightarrow> None
      | Some st \<Rightarrow> (case statAll fs ps of None \<Rightarrow> None | Some sts \<Rightarrow> Some ((p, st) # sts)))"

definition toInteger :: "rat \<Rightarrow> int" where
  \<comment> \<open>the conversion of a finite number to an integer: the fraction is cut off\<close>
  "toInteger x = (if 0 \<le> x then \<lfloor>x\<rfloor> else \<lceil>x\<rceil>)"

definition slice0 :: "'a list \<Rightarrow> rat \<Rightarrow> 'a list" where
  \<comment> \<open>\<open>xs.slice(0, end)\<close>: a negative end counts from the end of the array\<close>
  "slice0 xs end =
     (let k = toInteger end
      in if k < 0 then take (nat (int (length xs) + k)) xs else take (nat k) xs)"

definition unlinkOne :: "logfs \<Rightarrow> string \<Rightarrow> logfs" where
  \<comment> \<open>one \<open>fs.unlink\<close> inside its own \<open>try\<close>: a failure is reported and nothing else happens\<close>
  "unlinkOne fs p =
     (let fs1 = called (UnlinkFile p) fs
      in case fs_unlink fs1 p of Some fs2 \<Rightarrow> fs2 | None \<Rightarrow> fs1)"

text \<open>
  The methods that write are asynchronous: a call runs until its next \<open>await\<close>, and goes on
  from there when it is resumed; in between, other calls may run and change the fields of
  the logger.  The constructor does not await \<open>initializeLogDirectory\<close>, and the deletion
  service does not await the logging methods.  A call that is under way is a \<open>task\<close>: the
  place where it waits, with the values it holds.  A call on the filesystem takes effect
  when it is issued, and the task holds the result until it is resumed.  The tasks of
  \<open>writeToFile\<close> carry the line they write; it depends on the entry only.  The tasks of
  \<open>initializeLogDirectory\<close> carry the line of the \<open>writeToFile\<close> that awaits them, and
  none when the constructor started them.
\<close>

datatype task =
    Start string  \<comment> \<open>\<open>writeToFile\<close> is called\<close>
  | AwaitMkdir "string option" bool  \<comment> \<open>at \<open>await fs.mkdir\<close>, which succeeds or not\<close>
  | AwaitStat "string option" "logfile option"  \<comment> \<open>at \<open>await fs.stat\<close>\<close>
  | AwaitInit string  \<comment> \<open>at \<open>await this.initializeLogDirectory()\<close>, which has returned\<close>
  | AwaitReaddir string "string list option"  \<comment> \<open>at \<open>await fs.readdir\<close>\<close>
  | AwaitStats string "(string \<times> logfile) list option"  \<comment> \<open>at \<open>await Promise.all\<close>\<close>
  | AwaitUnlink string "string list"  \<comment> \<open>at \<open>await fs.unlink\<close>, with the files still to go\<close>
  | AwaitRotate string  \<comment> \<open>at \<open>await this.rotateLogFile()\<close>, which has returned\<close>
  | AwaitAppend string bool  \<comment> \<open>at \<open>await fs.appendFile\<close>, which succeeds or not\<close>
  | Done

definition initialize_call :: "string \<Rightarrow> string option \<Rightarrow> lworld \<Rightarrow> task \<times> lworld" where
  \<comment> \<open>\<open>initializeLogDirectory\<close> up to \<open>await fs.mkdir\<close>\<close>
  "initialize_call dir k w =
     (AwaitMkdir k (\<not> broken (lfs w) (Mkdir dir)), w\<lparr>lfs := called (Mkdir dir) (lfs w)\<rparr>)"

definition initialize_return :: "string option \<Rightarrow> lworld \<Rightarrow> task \<times> lworld" where
  \<comment> \<open>\<open>initializeLogDirectory\<close> returns, to \<open>writeToFile\<close> or to nobody\<close>
  "initialize_return k w = (case k of None \<Rightarrow> (Done, w) | Some line \<Rightarrow> (AwaitInit line, w))"

definition initialize_afterMkdir ::
  "(nat \<Rightarrow> reading) \<Rightarrow> string \<Rightarrow> string option \<Rightarrow> bool \<Rightarrow> lworld \<Rightarrow> task \<times> lworld" where
  \<comment> \<open>a failure goes to the \<open>catch\<close>; else the name is set and \<open>fs.stat\<close> is awaited\<close>
  "initialize_afterMkdir E dir k ok w =
     (if \<not> ok then initialize_return k w
      else
        let file = freshLogFile E dir (tick w);
            fs2 = called (Stat file) (lfs w)
        in (AwaitStat k (fs_stat fs2 file),
            w\<lparr>service := (service w)\<lparr>currentLogFile := file\<rparr>, lfs := fs2,
              tick := tick w + 1\<rparr>))"

definition initialize_afterStat :: "string option \<Rightarrow> logfile option \<Rightarrow> lworld \<Rightarrow> task \<times> lworld" where
  "initialize_afterStat k st w =
     initialize_return k
       (w\<lparr>service := (service w)\<lparr>currentLogFileSize :=
             (case st of Some s \<Rightarrow> length (content s) | None \<Rightarrow> 0)\<rparr>\<rparr>)"

definition append_call :: "(nat \<Rightarrow> reading) \<Rightarrow> string \<Rightarrow> lworld \<Rightarrow> task \<times> lworld" where
  \<comment> \<open>\<open>fs.appendFile(this.currentLogFile, entryWithNewline)\<close> is issued\<close>
  "append_call E line w =
     (let file = currentLogFile (service w);
          fs1 = called (AppendFile file) (lfs w)
      in case fs_appendFile fs1 file line (clockMs (E (tick w))) of
           None \<Rightarrow> (AwaitAppend line False, w\<lparr>lfs := fs1\<rparr>)
         | Some fs2 \<Rightarrow> (AwaitAppend line True, w\<lparr>lfs := fs2, tick := tick w + 1\<rparr>))"

definition append_return :: "string \<Rightarrow> bool \<Rightarrow> lworld \<Rightarrow> task \<times> lworld" where
  \<comment> \<open>\<open>this.currentLogFileSize += entrySize\<close>, unless the append failed\<close>
  "append_return line ok w =
     (Done,
      if ok then w\<lparr>service := (service w)\<lparr>currentLogFileSize :=
                       currentLogFileSize (service w) + length line\<rparr>\<rparr>
      else w)"

fun cleanup_unlink :: "string \<Rightarrow> string list \<Rightarrow> lworld \<Rightarrow> task \<times> lworld" where
  \<comment> \<open>the loop over \<open>filesToRemove\<close>: the next \<open>fs.unlink\<close> is issued, or the loop is over\<close>
  "cleanup_unlink line [] w = (AwaitRotate line, w)"
| "cleanup_unlink line (p # ps) w = (AwaitUnlink line ps, w\<lparr>lfs := unlinkOne (lfs w) p\<rparr>)"

definition cleanup_afterStats ::
  "Configuration \<Rightarrow> string \<Rightarrow> (string \<times> logfile) list option \<Rightarrow> lworld \<Rightarrow> task \<times> lworld" where
  "cleanup_afterStats cfg line stats w =
     (let maxFiles = (case maxLogFiles cfg of Some m \<Rightarrow> m | None \<Rightarrow> 5)
      in case stats of
           None \<Rightarrow> (AwaitRotate line, w)
         | Some sts \<Rightarrow>
             let fileStats = sort_key (\<lambda>(p, st). mtime st) sts;
                 filesToRemove = slice0 fileStats (of_nat (length fileStats) - maxFiles)
             in cleanup_unlink line (map fst filesToRemove) w)"

definition cleanup_afterReaddir ::
  "Configuration \<Rightarrow> string \<Rightarrow> string \<Rightarrow> string list option \<Rightarrow> lworld \<Rightarrow> task \<times> lworld" where
  "cleanup_afterReaddir cfg dir line listing w =
     (let maxFiles = (case maxLogFiles cfg of Some m \<Rightarrow> m | None \<Rightarrow> 5)
      in case listing of
           None \<Rightarrow> (AwaitRotate line, w)
         | Some names \<Rightarrow>
             let logFiles = map (pathJoin dir) (filter isLogFileName names) in
             if of_nat (length logFiles) \<le> maxFiles then (AwaitRotate line, w)
             else
               let fs2 = (lfs w)\<lparr>trace := trace (lfs w) @ map Stat logFiles\<rparr>
               in (AwaitStats line (statAll fs2 logFiles), w\<lparr>lfs := fs2\<rparr>))"

definition rotate_call ::
  "(nat \<Rightarrow> reading) \<Rightarrow> string \<Rightarrow> string \<Rightarrow> lworld \<Rightarrow> task \<times> lworld" where
  \<comment> \<open>\<open>rotateLogFile\<close> up to the \<open>await fs.readdir\<close> of \<open>cleanupOldLogFiles\<close>;
      \<open>logFileHandle\<close> is never assigned, so there is no handle to close\<close>
  "rotate_call E dir line w =
     (if currentLogFile (service w) = [] then (AwaitRotate line, w)
      else
        let newLogFile = freshLogFile E dir (tick w);
            fs1 = called (Readdir dir) (lfs w)
        in (AwaitReaddir line (fs_readdir fs1 dir),
            w\<lparr>service := (service w)\<lparr>currentLogFile := newLogFile, currentLogFileSize := 0\<rparr>,
              lfs := fs1, tick := tick w + 1\<rparr>))"

definition write_afterInit ::
  "(nat \<Rightarrow> reading) \<Rightarrow> Configuration \<Rightarrow> string \<Rightarrow> string \<Rightarrow> lworld \<Rightarrow> task \<times> lworld" where
  \<comment> \<open>\<open>writeToFile\<close> from the size of the entry to its next \<open>await\<close>\<close>
  "write_afterInit E cfg dir line w =
     (if shouldRotateLog cfg w (length line) then rotate_call E dir line w
      else append_call E line w)"

fun resume ::
  "(nat \<Rightarrow> reading) \<Rightarrow> Configuration \<Rightarrow> string \<Rightarrow> task \<Rightarrow> lworld \<Rightarrow> task \<times> lworld" where
  \<comment> \<open>a task runs from where it waits to its next \<open>await\<close>\<close>
  "resume E cfg dir (Start line) w =
     (if currentLogFile (service w) = [] then initialize_call dir (Some line) w
      else write_afterInit E cfg dir line w)"
| "resume E cfg dir (AwaitMkdir k ok) w = initialize_afterMkdir E dir k ok w"
| "resume E cfg dir (AwaitStat k st) w = initialize_afterStat k st w"
| "resume E cfg dir (AwaitInit line) w = write_afterInit E cfg dir line w"
| "resume E cfg dir (AwaitReaddir line listing) w = cleanup_afterReaddir cfg dir line listing w"
| "resume E cfg dir (AwaitStats line stats) w = cleanup_afterStats cfg line stats w"
| "resume E cfg dir (AwaitUnlink line ps) w = cleanup_unlink line ps w"
| "resume E cfg dir (AwaitRotate line) w = append_call E line w"
| "resume E cfg dir (AwaitAppend line ok) w = append_return line ok w"
| "resume E cfg dir Done w = (Done, w)"

fun stage :: "task \<Rightarrow> nat" where
  \<comment> \<open>how far a task is from its end\<close>
  "stage (Start line) = 9"
| "stage (AwaitMkdir k ok) = 8"
| "stage (AwaitStat k st) = 7"
| "stage (AwaitInit line) = 6"
| "stage (AwaitReaddir line listing) = 5"
| "stage (AwaitStats line stats) = 4"
| "stage (AwaitUnlink line ps) = 3"
| "stage (AwaitRotate line) = 2"
| "stage (AwaitAppend line ok) = 1"
| "stage Done = 0"

fun queued :: "task \<Rightarrow> nat" where
  "queued (AwaitUnlink line ps) = length ps"
| "queued t = 0"

text \<open>
  A call that is awaited, with no other call of the logger running before it is done:
  the task is resumed again and again until it is finished.
\<close>

function runAlone ::
  "(nat \<Rightarrow> reading) \<Rightarrow> Configuration \<Rightarrow> string \<Rightarrow> task \<Rightarrow> lworld \<Rightarrow> lworld" where
  "runAlone E cfg dir t w =
     (if t = Done then w
      else (case resume E cfg dir t w of (t', w') \<Rightarrow> runAlone E cfg dir t' w'))"
  by pat_completeness auto
termination
proof (relation "measures [\<lambda>(E, cfg, dir, t, w). stage t, \<lambda>(E, cfg, dir, t, w). queued t]")
  show "wf (measures [\<lambda>(E, cfg, dir, t, w). stage t, \<lambda>(E, cfg, dir, t, w). queued t])"
    by simp
next
  fix E :: "nat \<Rightarrow> reading" and cfg :: Configuration and dir :: string and t :: task
    and w :: lworld and t' :: task and w' :: lworld
  assume n: "t \<noteq> Done" and "(t', w') = resume E cfg dir t w"
  then have r: "resume E cfg dir t w = (t', w')" by simp
  have "stage t' < stage t \<or> (stage t' = stage t \<and> queued t' < queued t)"
  proof (cases t)
    case (AwaitUnlink line ps)
    with r show ?thesis by (cases ps) auto
  next
    case (AwaitStats line stats)
    have u: "\<And>qs v. cleanup_unlink line qs w = v \<Longrightarrow> stage (fst v) < 4"
      by (case_tac qs) auto
    from r AwaitStats have "stage t' < 4"
      by (auto simp: cleanup_afterStats_def Let_def split: option.splits dest: u)
    with AwaitStats show ?thesis by simp
  qed (use r n in \<open>auto simp: initialize_call_def initialize_return_def
        initialize_afterMkdir_def initialize_afterStat_def append_call_def append_return_def
        cleanup_afterReaddir_def rotate_call_def write_afterInit_def Let_def
        split: option.splits if_splits\<close>)
  then show "((E, cfg, dir, t', w'), E, cfg, dir, t, w)
      \<in> measures [\<lambda>(E, cfg, dir, t, w). stage t, \<lambda>(E, cfg, dir, t, w). queued t]"
    by auto
qed

text \<open>
  Calls that overlap: several tasks wait at once, and the event loop resumes one of them at
  a time.  The schedule names the task that is resumed at each step.
\<close>

fun interleave ::
  "(nat \<Rightarrow> reading) \<Rightarrow> Configuration \<Rightarrow> string \<Rightarrow> nat list \<Rightarrow> task list \<Rightarrow> lworld
     \<Rightarrow> task list \<times> lworld" where
  "interleave E cfg dir [] ts w = (ts, w)"
| "interleave E cfg dir (i # schedule) ts w =
     (if i < length ts
      then (case resume E cfg dir (ts ! i) w of
              (t', w') \<Rightarrow> interleave E cfg dir schedule (ts[i := t']) w')
      else interleave E cfg dir schedule ts w)"

definition writeToFile ::
  "(nat \<Rightarrow> reading) \<Rightarrow> (AuditLog \<Rightarrow> string) \<Rightarrow> Configuration \<Rightarrow> string \<Rightarrow> lworld \<Rightarrow> AuditLog
     \<Rightarrow> lworld" where
  \<comment> \<open>\<open>writeToFile\<close> awaited alone; \<open>serialize\<close> is \<open>JSON.stringify\<close> of the entry, as UTF-8
      bytes\<close>
  "writeToFile E serialize cfg dir w logEntry =
     runAlone E cfg dir (Start (serialize logEntry @ [CHR 0x0A])) w"

definition newLoggingService ::
  "(nat \<Rightarrow> reading) \<Rightarrow> Configuration \<Rightarrow> string \<Rightarrow> logfs \<Rightarrow> nat \<Rightarrow> lworld" where
  \<comment> \<open>the constructor on the disk \<open>fs\<close> at reading \<open>t\<close>, and the initialisation it starts
      run to its end\<close>
  "newLoggingService E cfg dir fs t =
     (let w = \<lparr>service = \<lparr>inMemoryLogs = [], currentLogFile = [], currentLogFileSize = 0\<rparr>,
               lfs = fs, tick = t\<rparr>
      in if logLevel cfg \<noteq> none
         then (case initialize_call dir None w of (k, w') \<Rightarrow> runAlone E cfg dir k w')
         else w)"

definition writeLogEntry ::
  "(nat \<Rightarrow> reading) \<Rightarrow> (AuditLog \<Rightarrow> string) \<Rightarrow> Configuration \<Rightarrow> string \<Rightarrow> lworld \<Rightarrow> AuditLog
     \<Rightarrow> lworld" where
  \<comment> \<open>\<open>writeLogEntry\<close> awaited alone\<close>
  "writeLogEntry E serialize cfg dir w logEntry =
     (if logLevel cfg = none then w
      else if \<not> shouldLog cfg logEntry then w
      else
        let pushed = inMemoryLogs (service w) @ [logEntry];
            kept = (if length pushed > 1000 then drop (length pushed - 1000) pushed else pushed)
        in writeToFile E serialize cfg dir
             (w\<lparr>service := (service w)\<lparr>inMemoryLogs := kept\<rparr>\<rparr>) logEntry)"


definition logDebug ::
  "(nat \<Rightarrow> reading) \<Rightarrow> (AuditLog \<Rightarrow> string) \<Rightarrow> Configuration \<Rightarrow> string \<Rightarrow> lworld
     \<Rightarrow> nat \<Rightarrow> string \<Rightarrow> string \<Rightarrow> lworld" where
  "logDebug E serialize cfg dir w now uuid message =
     (if logLevel cfg \<noteq> debug then w
      else writeLogEntry E serialize cfg dir w
             \<lparr>timestamp = now, operation = op_get_allowed, paths = None, result = Success,
              logReason = Some (''DEBUG: '' @ message), requestId = uuid\<rparr>)"

definition getRecentLogs :: "lworld \<Rightarrow> nat \<Rightarrow> AuditLog list" where
  \<comment> \<open>\<open>inMemoryLogs.slice(-limit).reverse()\<close>; \<open>slice(-0)\<close> is the whole array\<close>
  "getRecentLogs w limit =
     rev (if limit = 0 then inMemoryLogs (service w)
          else drop (length (inMemoryLogs (service w)) - limit) (inMemoryLogs (service w)))"

definition logFilesOnDisk :: "string \<Rightarrow> logfs \<Rightarrow> string list" where
  \<comment> \<open>the log files a listing of the directory shows\<close>
  "logFilesOnDisk dir fs =
     filter isLogFileName (List.map_filter (childName dir) (map fst (files fs)))"

section \<open>Notions used to state the properties\<close>

definition cache_grows :: "node_lib \<Rightarrow> Configuration \<Rightarrow> engine \<Rightarrow> engine \<Rightarrow> bool" where
  \<comment> \<open>\<open>e'\<close> is \<open>e\<close> with further decisions cached, each the value the patterns evaluate to\<close>
  "cache_grows L cfg e e' =
     (\<forall>k. patternCache e' k = patternCache e k \<or>
          (patternCache e k = None \<and> patternCache e' k = Some (evaluatePatterns L cfg k)))"

definition verdict :: "node_lib \<Rightarrow> Configuration \<Rightarrow> engine \<Rightarrow> string \<Rightarrow> ValidationResult" where
  \<comment> \<open>what \<open>validatePath\<close> returns when called in engine state \<open>e\<close>\<close>
  "verdict L cfg e p = fst (validatePath L cfg e p)"

definition reasonText :: "ValidationResult \<Rightarrow> string" where
  \<comment> \<open>\<open>validation.reason ?? 'Invalid path'\<close>\<close>
  "reasonText v = (case reason v of Some r \<Rightarrow> r | None \<Rightarrow> ''Invalid path'')"

definition protectionFailure :: "ValidationResult \<Rightarrow> bool" where
  \<comment> \<open>a failure whose reason mentions protection: \<open>reason?.includes('protected') === true\<close>\<close>
  "protectionFailure v =
     (\<not> valid v \<and> (case reason v of Some r \<Rightarrow> str_includes r ''protected'' | None \<Rightarrow> False))"

definition notFound :: "string \<Rightarrow> DeletionResult" where
  \<comment> \<open>what \<open>deleteFile\<close> returns for a file that is not there\<close>
  "notFound p = \<lparr>success = False, path = Some p, err = Some ''File not found'', why = None\<rparr>"

fun after :: "'fs fs_result \<Rightarrow> 'fs" where
  \<comment> \<open>the disk a call leaves behind\<close>
  "after (Resolved d) = d"
| "after (Threw thrown d) = d"

definition staysAbsent :: "'fs fs_ops \<Rightarrow> string \<Rightarrow> bool" where
  \<comment> \<open>no \<open>unlink\<close> makes the path \<open>p\<close> appear\<close>
  "staysAbsent F p =
     (\<forall>d q. \<not> existsSync F d p \<longrightarrow> \<not> existsSync F (after (unlink F d q)) p)"

definition healthy :: "logfs \<Rightarrow> bool" where
  \<comment> \<open>no filesystem call fails\<close>
  "healthy fs = (\<forall>c. \<not> broken fs c)"




definition maxFilesOf :: "Configuration \<Rightarrow> rat" where
  \<comment> \<open>\<open>config.maxLogFiles ?? 5\<close>\<close>
  "maxFilesOf cfg = (case maxLogFiles cfg of Some m \<Rightarrow> m | None \<Rightarrow> 5)"

definition keptFiles :: "Configuration \<Rightarrow> nat" where
  \<comment> \<open>the configured count of log files, rounded up to a whole number\<close>
  "keptFiles cfg = nat \<lceil>maxFilesOf cfg\<rceil>"

definition maxSizeOf :: "Configuration \<Rightarrow> rat" where
  \<comment> \<open>\<open>config.maxLogFileSize ?? 10 * 1024 * 1024\<close>\<close>
  "maxSizeOf cfg = (case maxLogFileSize cfg of Some m \<Rightarrow> m | None \<Rightarrow> 10 * 1024 * 1024)"



definition withinRetention :: "Configuration \<Rightarrow> string \<Rightarrow> lworld \<Rightarrow> bool" where
  \<comment> \<open>the logger has an active file, the directory holds at most one log file more than
      the configured count, and not even that one as long as the active file is unwritten\<close>
  "withinRetention cfg dir w =
     (currentLogFile (service w) \<noteq> [] \<and>
      length (logFilesOnDisk dir (lfs w)) \<le> keptFiles cfg + 1 \<and>
      (map_of (files (lfs w)) (currentLogFile (service w)) = None \<longrightarrow>
         length (logFilesOnDisk dir (lfs w)) \<le> keptFiles cfg))"

text \<open>
  What the steps of a task add up to when the task runs alone.  These summaries are proved
  equal to \<open>runAlone\<close> below and serve the proofs.
\<close>

definition initAlone :: "(nat \<Rightarrow> reading) \<Rightarrow> string \<Rightarrow> lworld \<Rightarrow> lworld" where
  \<comment> \<open>\<open>initializeLogDirectory\<close> from call to return\<close>
  "initAlone E dir w =
     (let fs1 = called (Mkdir dir) (lfs w) in
      if broken fs1 (Mkdir dir) then w\<lparr>lfs := fs1\<rparr>
      else
        let file = freshLogFile E dir (tick w);
            fs2 = called (Stat file) fs1;
            size = (case fs_stat fs2 file of Some st \<Rightarrow> length (content st) | None \<Rightarrow> 0)
        in w\<lparr>service := (service w)\<lparr>currentLogFile := file, currentLogFileSize := size\<rparr>,
             lfs := fs2, tick := tick w + 1\<rparr>)"

fun unlinkAll :: "logfs \<Rightarrow> string list \<Rightarrow> logfs" where
  \<comment> \<open>the whole loop over \<open>filesToRemove\<close>\<close>
  "unlinkAll fs [] = fs"
| "unlinkAll fs (p # ps) = unlinkAll (unlinkOne fs p) ps"

definition cleanupAlone :: "Configuration \<Rightarrow> string \<Rightarrow> logfs \<Rightarrow> logfs" where
  \<comment> \<open>\<open>cleanupOldLogFiles\<close> from call to return\<close>
  "cleanupAlone cfg dir fs =
     (let maxFiles = (case maxLogFiles cfg of Some m \<Rightarrow> m | None \<Rightarrow> 5);
          fs1 = called (Readdir dir) fs
      in case fs_readdir fs1 dir of
           None \<Rightarrow> fs1
         | Some names \<Rightarrow>
             let logFiles = map (pathJoin dir) (filter isLogFileName names) in
             if of_nat (length logFiles) \<le> maxFiles then fs1
             else
               let fs2 = fs1\<lparr>trace := trace fs1 @ map Stat logFiles\<rparr>
               in case statAll fs2 logFiles of
                    None \<Rightarrow> fs2
                  | Some stats \<Rightarrow>
                      let fileStats = sort_key (\<lambda>(p, st). mtime st) stats;
                          filesToRemove = slice0 fileStats (of_nat (length fileStats) - maxFiles)
                      in unlinkAll fs2 (map fst filesToRemove))"

definition rotateAlone ::
  "(nat \<Rightarrow> reading) \<Rightarrow> Configuration \<Rightarrow> string \<Rightarrow> lworld \<Rightarrow> lworld" where
  \<comment> \<open>\<open>rotateLogFile\<close> from call to return\<close>
  "rotateAlone E cfg dir w =
     (if currentLogFile (service w) = [] then w
      else
        let newLogFile = freshLogFile E dir (tick w)
        in w\<lparr>service := (service w)\<lparr>currentLogFile := newLogFile, currentLogFileSize := 0\<rparr>,
             lfs := cleanupAlone cfg dir (lfs w),
             tick := tick w + 1\<rparr>)"

definition writeAlone ::
  "(nat \<Rightarrow> reading) \<Rightarrow> Configuration \<Rightarrow> string \<Rightarrow> string \<Rightarrow> lworld \<Rightarrow> lworld" where
  \<comment> \<open>\<open>writeToFile\<close> of the line from call to return\<close>
  "writeAlone E cfg dir line w =
     (let w1 = (if currentLogFile (service w) = [] then initAlone E dir w else w);
          w2 = (if shouldRotateLog cfg w1 (length line) then rotateAlone E cfg dir w1 else w1);
          file = currentLogFile (service w2);
          fs1 = called (AppendFile file) (lfs w2)
      in case fs_appendFile fs1 file line (clockMs (E (tick w2))) of
           None \<Rightarrow> w2\<lparr>lfs := fs1\<rparr>
         | Some fs2 \<Rightarrow>
             w2\<lparr>service := (service w2)\<lparr>currentLogFileSize :=
                    currentLogFileSize (service w2) + length line\<rparr>,
                lfs := fs2, tick := tick w2 + 1\<rparr>)"

section \<open>Example inputs\<close>

definition defaultsWith :: "string list \<Rightarrow> string list \<Rightarrow> Configuration" where
  \<comment> \<open>\<open>DEFAULT_CONFIG\<close> with the given allowed directories and protected patterns\<close>
  "defaultsWith dirs patterns =
     \<lparr>allowedDirectories = dirs, protectedPatterns = patterns, logLevel = info,
      logDirectory = ''logs'', maxBatchSize = 100, maxLogFileSize = Some 10485760,
      maxLogFiles = Some 10\<rparr>"

definition lastSegment :: "string \<Rightarrow> string" where
  "lastSegment s = last (split_on CHR ''/'' s)"

definition literalLib :: node_lib where
  \<comment> \<open>a stand-in for the libraries on POSIX paths and patterns without wildcards: a pattern
      matches the string equal to it, and with \<open>matchBase\<close> the path whose last segment is
      equal to it\<close>
  "literalLib =
     \<lparr>minimatch = (\<lambda>s pattern matchBase. if matchBase then lastSegment s = pattern else s = pattern),
      basename = lastSegment,
      relative = (\<lambda>from to. drop (length from + 1) to),
      isAbsolute = (\<lambda>s. startsWith s ''/''),
      join = pathJoin\<rparr>"

definition listDisk :: "string list fs_ops" where
  \<comment> \<open>a disk that is the list of the paths present; every call succeeds on a present path\<close>
  "listDisk =
     \<lparr>existsSync = (\<lambda>d p. p \<in> set d),
      unlink = (\<lambda>d p. if p \<in> set d then Resolved (removeAll p d)
                       else Threw (Some ''ENOENT: no such file or directory'') d),
      rmdir = (\<lambda>d p. if p \<in> set d then Resolved (removeAll p d)
                      else Threw (Some ''ENOENT: no such file or directory'') d)\<rparr>"

definition newWorld :: "Configuration \<Rightarrow> 'fs \<Rightarrow> 'fs world" where
  \<comment> \<open>a service with a new engine on the disk \<open>d\<close>, before any call\<close>
  "newWorld cfg d =
     \<lparr>protectionEngine = newEngine (\<lambda>p. True) (\<lambda>p. True) cfg, disk = d, fsCalls = [],
      logCalls = []\<rparr>"

definition quietEnv :: "nat \<Rightarrow> reading" where
  \<comment> \<open>a clock that stands still and a random generator that gives a new string each time\<close>
  "quietEnv t =
     \<lparr>isoString = ''2025-01-01T00:00:00.000Z'', random36 = ''r'' @ digitsOf t, clockMs = t\<rparr>"

definition emptyDisk :: logfs where
  "emptyDisk = \<lparr>files = [], broken = (\<lambda>c. False), trace = []\<rparr>"

definition lineOf :: "AuditLog \<Rightarrow> string" where
  \<comment> \<open>a serialiser that writes the same short line for every entry\<close>
  "lineOf logEntry = ''{}''"

definition plainEntry :: "outcome \<Rightarrow> AuditLog" where
  "plainEntry res =
     \<lparr>timestamp = 0, operation = op_delete, paths = Some [''/tmp/proj/a.txt''], result = res,
      logReason = None, requestId = ''id''\<rparr>"

definition retentionCfg :: Configuration where
  \<comment> \<open>the defaults, keeping one log file\<close>
  "retentionCfg = (defaultsWith [] [])\<lparr>maxLogFiles := Some 1\<rparr>"

definition tinyCfg :: Configuration where
  \<comment> \<open>one log file is kept and a file holds two bytes, so that every entry rotates\<close>
  "tinyCfg = retentionCfg\<lparr>maxLogFileSize := Some 2\<rparr>"






section \<open>Facts about the string operations\<close>

lemma startsWith_iff: "startsWith s t \<longleftrightarrow> (\<exists>r. s = t @ r)"
proof
  assume "startsWith s t"
  then have "s = t @ drop (length t) s"
    by (metis append_take_drop_id startsWith_def)
  then show "\<exists>r. s = t @ r" ..
next
  assume "\<exists>r. s = t @ r"
  then show "startsWith s t" by (auto simp: startsWith_def)
qed

lemma dirMatches_iff:
  "dirMatches p d \<longleftrightarrow> (p = d \<or> (\<exists>r. p = d @ ''/'' @ r))"
  by (simp add: dirMatches_def startsWith_iff)

lemma dirMatches_take: "dirMatches p d \<Longrightarrow> d = take (length d) p"
  by (auto simp: dirMatches_iff)

lemma dirMatches_same_length:
  "dirMatches p d \<Longrightarrow> dirMatches p d' \<Longrightarrow> length d = length d' \<Longrightarrow> d = d'"
  by (metis dirMatches_take)

section \<open>Allowed directories\<close>

lemma isWithin_iff:
  "isWithinAllowedDirectories cfg p \<longleftrightarrow>
     (\<exists>d\<in>set (allowedDirectories cfg). p = d \<or> (\<exists>r. p = d @ ''/'' @ r))"
  by (simp add: isWithinAllowedDirectories_def list_ex_iff dirMatches_iff)

lemma sort_key_head:
  assumes "sort_key f xs = m # ms"
  shows "m \<in> set xs \<and> (\<forall>x\<in>set xs. f m \<le> f x)"
proof -
  have "set (sort_key f xs) = set xs" by simp
  then have m: "m \<in> set xs" using assms by (metis list.set_intros(1))
  have "sorted (map f (sort_key f xs))" by (rule sorted_sort_key)
  then have "\<forall>x\<in>set ms. f m \<le> f x" using assms by simp
  moreover have "set xs = insert m (set ms)" using assms
    by (metis \<open>set (sort_key f xs) = set xs\<close> list.simps(15))
  ultimately show ?thesis using m by auto
qed

lemma getMatching_None:
  "getMatchingAllowedDirectory cfg p = None \<longleftrightarrow> \<not> isWithinAllowedDirectories cfg p"
proof -
  let ?ms = "filter (dirMatches p) (allowedDirectories cfg)"
  have "getMatchingAllowedDirectory cfg p = None \<longleftrightarrow> sort_key (\<lambda>d. - int (length d)) ?ms = []"
    by (simp add: getMatchingAllowedDirectory_def split: list.splits)
  also have "\<dots> \<longleftrightarrow> ?ms = []"
    by (metis length_sort length_0_conv)
  also have "\<dots> \<longleftrightarrow> \<not> isWithinAllowedDirectories cfg p"
    by (simp add: isWithinAllowedDirectories_def list_ex_iff filter_empty_conv)
  finally show ?thesis .
qed

lemma getMatching_Some:
  assumes "getMatchingAllowedDirectory cfg p = Some d"
  shows "d \<in> set (allowedDirectories cfg) \<and> dirMatches p d \<and>
         (\<forall>d'\<in>set (allowedDirectories cfg). dirMatches p d' \<longrightarrow> length d' \<le> length d)"
proof -
  let ?ms = "filter (dirMatches p) (allowedDirectories cfg)"
  obtain ms where "sort_key (\<lambda>d. - int (length d)) ?ms = d # ms"
    using assms by (auto simp: getMatchingAllowedDirectory_def split: list.splits)
  from sort_key_head[OF this]
  show ?thesis by auto
qed

text \<open>
  Claim C6.  A path is within the allowed directories exactly when some allowed directory is
  equal to it or is followed in it by a slash, so \<open>/a/b\<close> admits \<open>/a/b\<close> and \<open>/a/b/c\<close> but not
  \<open>/a/bc\<close>.  \<open>getMatchingAllowedDirectory\<close> returns null exactly when no directory matches, and
  otherwise a matching directory that no matching directory exceeds in length; it is the only
  matching directory of that length.
\<close>

theorem allowed_directory_matching:
  "(isWithinAllowedDirectories cfg p \<longleftrightarrow>
      (\<exists>d\<in>set (allowedDirectories cfg). p = d \<or> (\<exists>r. p = d @ ''/'' @ r)))
   \<and> (getMatchingAllowedDirectory cfg p = None \<longleftrightarrow> \<not> isWithinAllowedDirectories cfg p)
   \<and> (\<forall>d. getMatchingAllowedDirectory cfg p = Some d \<longrightarrow>
         d \<in> set (allowedDirectories cfg) \<and> (p = d \<or> (\<exists>r. p = d @ ''/'' @ r)) \<and>
         (\<forall>d'\<in>set (allowedDirectories cfg).
            (p = d' \<or> (\<exists>r. p = d' @ ''/'' @ r)) \<longrightarrow>
              length d' \<le> length d \<and> (length d' = length d \<longrightarrow> d' = d)))
   \<and> isWithinAllowedDirectories (defaultsWith [''/a/b''] []) ''/a/b''
   \<and> isWithinAllowedDirectories (defaultsWith [''/a/b''] []) ''/a/b/c''
   \<and> \<not> isWithinAllowedDirectories (defaultsWith [''/a/b''] []) ''/a/bc''"
proof (intro conjI allI impI ballI)
  show "isWithinAllowedDirectories cfg p \<longleftrightarrow>
      (\<exists>d\<in>set (allowedDirectories cfg). p = d \<or> (\<exists>r. p = d @ ''/'' @ r))"
    by (rule isWithin_iff)
  show "getMatchingAllowedDirectory cfg p = None \<longleftrightarrow> \<not> isWithinAllowedDirectories cfg p"
    by (rule getMatching_None)
next
  fix d assume s: "getMatchingAllowedDirectory cfg p = Some d"
  note m = getMatching_Some[OF s]
  from m show "d \<in> set (allowedDirectories cfg)" by simp
  from m show "p = d \<or> (\<exists>r. p = d @ ''/'' @ r)" by (simp add: dirMatches_iff)
  fix d' assume d': "d' \<in> set (allowedDirectories cfg)" and h: "p = d' \<or> (\<exists>r. p = d' @ ''/'' @ r)"
  from h have dm: "dirMatches p d'" by (simp add: dirMatches_iff)
  with m d' show "length d' \<le> length d" by simp
  assume "length d' = length d"
  with dm m show "d' = d" by (metis dirMatches_same_length)
qed (simp_all add: isWithinAllowedDirectories_def defaultsWith_def dirMatches_def startsWith_def)

theorem allowed_directory_matching_witness:
  "isWithinAllowedDirectories (defaultsWith [''/a'', ''/a/b'', ''/a/c''] []) ''/a/b/c''
   \<and> getMatchingAllowedDirectory (defaultsWith [''/a'', ''/a/b'', ''/a/c''] []) ''/a/b/c'' = Some ''/a/b''
   \<and> ''/a'' \<in> set (allowedDirectories (defaultsWith [''/a'', ''/a/b'', ''/a/c''] []))
   \<and> ''/a/b/c'' = ''/a'' @ ''/'' @ ''b/c''
   \<and> length ''/a'' \<le> length ''/a/b''"
proof -
  let ?c = "defaultsWith [''/a'', ''/a/b'', ''/a/c''] []"
  have g: "getMatchingAllowedDirectory ?c ''/a/b/c'' = Some ''/a/b''"
    by (simp add: getMatchingAllowedDirectory_def defaultsWith_def dirMatches_def startsWith_def)
  have a: "''/a'' \<in> set (allowedDirectories ?c)" by (simp add: defaultsWith_def)
  have b: "''/a/b/c'' = ''/a'' @ ''/'' @ ''b/c''" by simp
  from allowed_directory_matching[of ?c "''/a/b/c''"] g a b show ?thesis by blast
qed

section \<open>The decision cache\<close>

lemma isProtected_outside:
  "\<not> isWithinAllowedDirectories cfg p \<Longrightarrow> isProtected L cfg e p = (True, e)"
  by (simp add: isProtected_def)

lemma isProtected_cache_ok:
  assumes "cache_ok L cfg e"
  shows "fst (isProtected L cfg e p) = (\<not> isWithinAllowedDirectories cfg p \<or> evaluatePatterns L cfg p)"
    and "cache_ok L cfg (snd (isProtected L cfg e p))"
  using assms
  by (auto simp: isProtected_def cache_ok_def Let_def split: option.splits)

lemma invalidateCache_cache_ok:
  "cache_ok L cfg e \<Longrightarrow> cache_ok L cfg (invalidateCache e q)"
  by (auto simp: cache_ok_def invalidateCache_def split: if_splits)

lemma onWatchEvent_cache_ok:
  "cache_ok L cfg e \<Longrightarrow> cache_ok L cfg (onWatchEvent L e dir fn)"
  by (simp add: onWatchEvent_def invalidateCache_cache_ok split: option.splits)

lemma dispose_cache_ok: "cache_ok L cfg (dispose e)"
  by (simp add: cache_ok_def dispose_def)

lemma newEngine_cache_ok: "cache_ok L cfg (newEngine ex wa cfg)"
  by (simp add: cache_ok_def newEngine_def)

lemma reachable_cache_ok: "reachable L cfg e \<Longrightarrow> cache_ok L cfg e"
  by (induction rule: reachable.induct)
     (simp_all add: newEngine_cache_ok isProtected_cache_ok onWatchEvent_cache_ok dispose_cache_ok)

lemma scen_within:
  "\<not> isWithinAllowedDirectories (defaultsWith [''/tmp/proj''] [''.git'']) ''/etc/passwd''"
  "isWithinAllowedDirectories (defaultsWith [''/tmp/proj''] [''.git'']) ''/tmp/proj/.git/config''"
  "isWithinAllowedDirectories (defaultsWith [''/tmp/proj''] [''.git'']) ''/tmp/proj/readme.md''"
  by (simp_all add: isWithinAllowedDirectories_def defaultsWith_def dirMatches_def startsWith_def)

lemma scen_eval_git:
  assumes "minimatch L ''.git'' ''.git'' False"
  shows "evaluatePatterns L (defaultsWith [''/tmp/proj''] [''.git'']) ''/tmp/proj/.git/config''"
  using assms
  by (simp add: evaluatePatterns_def patternMatches_def defaultsWith_def stripTrailingSlash_def Let_def)

lemma scen_eval_readme:
  assumes "\<not> minimatch L ''/tmp/proj/readme.md'' ''.git'' True"
    and "basename L ''/tmp/proj/readme.md'' = ''readme.md''"
    and "\<not> minimatch L ''readme.md'' ''.git'' False"
    and "\<not> minimatch L [] ''.git'' False"
    and "\<not> minimatch L ''tmp'' ''.git'' False"
    and "\<not> minimatch L ''proj'' ''.git'' False"
  shows "\<not> evaluatePatterns L (defaultsWith [''/tmp/proj''] [''.git'']) ''/tmp/proj/readme.md''"
  using assms
  by (simp add: evaluatePatterns_def patternMatches_def defaultsWith_def stripTrailingSlash_def Let_def startsWith_def)

text \<open>
  Claim C1.  A path that neither equals an allowed directory nor extends one past a slash is
  protected whatever the patterns are, and the call leaves the engine as it was.  With the
  allowed directory \<open>/tmp/proj\<close> and the pattern \<open>.git\<close>, in every engine state whose cache
  satisfies its invariant: \<open>/etc/passwd\<close> is protected; \<open>/tmp/proj/.git/config\<close> is protected
  as soon as the pattern \<open>.git\<close> matches the string \<open>.git\<close>; and \<open>/tmp/proj/readme.md\<close> is not
  protected as soon as the pattern \<open>.git\<close> matches none of the strings the engine tries for
  that path, which are the path with \<open>matchBase\<close>, its base name \<open>readme.md\<close>, and its
  segments, the empty string, \<open>tmp\<close>, \<open>proj\<close> and \<open>readme.md\<close>.
\<close>

theorem isProtected_fail_closed:
  "((\<forall>d\<in>set (allowedDirectories cfg). p \<noteq> d \<and> (\<forall>r. p \<noteq> d @ ''/'' @ r))
      \<longrightarrow> isProtected L cfg e p = (True, e))
   \<and> fst (isProtected L (defaultsWith [''/tmp/proj''] [''.git'']) e' ''/etc/passwd'') = True
   \<and> (minimatch L ''.git'' ''.git'' False
        \<and> cache_ok L (defaultsWith [''/tmp/proj''] [''.git'']) e'
      \<longrightarrow> fst (isProtected L (defaultsWith [''/tmp/proj''] [''.git'']) e' ''/tmp/proj/.git/config'') = True)
   \<and> (\<not> minimatch L ''/tmp/proj/readme.md'' ''.git'' True
        \<and> basename L ''/tmp/proj/readme.md'' = ''readme.md''
        \<and> \<not> minimatch L ''readme.md'' ''.git'' False
        \<and> \<not> minimatch L [] ''.git'' False
        \<and> \<not> minimatch L ''tmp'' ''.git'' False
        \<and> \<not> minimatch L ''proj'' ''.git'' False
        \<and> cache_ok L (defaultsWith [''/tmp/proj''] [''.git'']) e'
      \<longrightarrow> fst (isProtected L (defaultsWith [''/tmp/proj''] [''.git'']) e' ''/tmp/proj/readme.md'') = False)"
proof (intro conjI impI)
  assume "\<forall>d\<in>set (allowedDirectories cfg). p \<noteq> d \<and> (\<forall>r. p \<noteq> d @ ''/'' @ r)"
  then have "\<not> isWithinAllowedDirectories cfg p" by (auto simp: isWithin_iff)
  then show "isProtected L cfg e p = (True, e)" by (rule isProtected_outside)
next
  let ?c = "defaultsWith [''/tmp/proj''] [''.git'']"
  show "fst (isProtected L ?c e' ''/etc/passwd'') = True"
    by (simp add: isProtected_outside scen_within)
next
  let ?c = "defaultsWith [''/tmp/proj''] [''.git'']"
  assume h: "minimatch L ''.git'' ''.git'' False \<and> cache_ok L ?c e'"
  then show "fst (isProtected L ?c e' ''/tmp/proj/.git/config'') = True"
    by (simp add: isProtected_cache_ok(1) scen_eval_git)
next
  let ?c = "defaultsWith [''/tmp/proj''] [''.git'']"
  assume h: "\<not> minimatch L ''/tmp/proj/readme.md'' ''.git'' True
        \<and> basename L ''/tmp/proj/readme.md'' = ''readme.md''
        \<and> \<not> minimatch L ''readme.md'' ''.git'' False
        \<and> \<not> minimatch L [] ''.git'' False
        \<and> \<not> minimatch L ''tmp'' ''.git'' False
        \<and> \<not> minimatch L ''proj'' ''.git'' False
        \<and> cache_ok L ?c e'"
  then have "\<not> evaluatePatterns L ?c ''/tmp/proj/readme.md''"
    by (intro scen_eval_readme) simp_all
  with h show "fst (isProtected L ?c e' ''/tmp/proj/readme.md'') = False"
    by (simp add: isProtected_cache_ok(1) scen_within)
qed

theorem isProtected_fail_closed_witness:
  "isProtected literalLib (defaultsWith [''/tmp/proj''] [''.git''])
        (newEngine (\<lambda>d. True) (\<lambda>d. True) (defaultsWith [''/tmp/proj''] [''.git''])) ''/etc/passwd''
      = (True, newEngine (\<lambda>d. True) (\<lambda>d. True) (defaultsWith [''/tmp/proj''] [''.git'']))
   \<and> fst (isProtected literalLib (defaultsWith [''/tmp/proj''] [''.git''])
        (newEngine (\<lambda>d. True) (\<lambda>d. True) (defaultsWith [''/tmp/proj''] [''.git''])) ''/tmp/proj/.git/config'') = True
   \<and> fst (isProtected literalLib (defaultsWith [''/tmp/proj''] [''.git''])
        (newEngine (\<lambda>d. True) (\<lambda>d. True) (defaultsWith [''/tmp/proj''] [''.git''])) ''/tmp/proj/readme.md'') = False"
proof -
  let ?c = "defaultsWith [''/tmp/proj''] [''.git'']"
  let ?e = "newEngine (\<lambda>d. True) (\<lambda>d. True) ?c"
  have a: "\<forall>d\<in>set (allowedDirectories ?c).
       ''/etc/passwd'' \<noteq> d \<and> (\<forall>r. ''/etc/passwd'' \<noteq> d @ ''/'' @ r)"
    by (simp add: defaultsWith_def)
  have b: "minimatch literalLib ''.git'' ''.git'' False
        \<and> \<not> minimatch literalLib ''/tmp/proj/readme.md'' ''.git'' True
        \<and> basename literalLib ''/tmp/proj/readme.md'' = ''readme.md''
        \<and> \<not> minimatch literalLib ''readme.md'' ''.git'' False
        \<and> \<not> minimatch literalLib [] ''.git'' False
        \<and> \<not> minimatch literalLib ''tmp'' ''.git'' False
        \<and> \<not> minimatch literalLib ''proj'' ''.git'' False"
    by (simp add: literalLib_def lastSegment_def)
  have c: "cache_ok literalLib ?c ?e" by (simp add: cache_ok_def newEngine_def)
  show ?thesis
    using a b c isProtected_fail_closed[of ?c "''/etc/passwd''" literalLib ?e ?e] by blast
qed

text \<open>
  Claim C10.  The cache invariant holds in a new engine and is kept by \<open>isProtected\<close>, by cache
  invalidation and by \<open>dispose\<close>, so it holds in every reachable engine state.  Under it a
  stored key lies within the allowed directories, its stored value is what the patterns
  evaluate to on that key, a call of \<open>isProtected\<close> on the key returns the stored value
  without changing the engine, and the engine with its cache cleared returns the same value.
  The branch for paths outside the allowed directories returns true and writes nothing.
\<close>

theorem decision_cache_invariant:
  "cache_ok L cfg (newEngine ex watchable cfg)
   \<and> (cache_ok L cfg e \<longrightarrow>
         cache_ok L cfg (snd (isProtected L cfg e p))
       \<and> cache_ok L cfg (invalidateCache e changedPath)
       \<and> cache_ok L cfg (dispose e)
       \<and> (\<forall>k v. patternCache e k = Some v \<longrightarrow>
             isWithinAllowedDirectories cfg k
           \<and> v = evaluatePatterns L cfg k
           \<and> isProtected L cfg e k = (v, e)
           \<and> fst (isProtected L cfg (dispose e) k) = v))
   \<and> (\<not> isWithinAllowedDirectories cfg p \<longrightarrow> isProtected L cfg e p = (True, e))
   \<and> (reachable L cfg e \<longrightarrow> cache_ok L cfg e)"
proof (intro conjI allI impI)
  show "cache_ok L cfg (newEngine ex watchable cfg)" by (rule newEngine_cache_ok)
  show "reachable L cfg e \<Longrightarrow> cache_ok L cfg e" by (rule reachable_cache_ok)
  show "\<not> isWithinAllowedDirectories cfg p \<Longrightarrow> isProtected L cfg e p = (True, e)"
    by (rule isProtected_outside)
next
  assume ok: "cache_ok L cfg e"
  then show "cache_ok L cfg (snd (isProtected L cfg e p))" by (rule isProtected_cache_ok(2))
  from ok show "cache_ok L cfg (invalidateCache e changedPath)" by (rule invalidateCache_cache_ok)
  show "cache_ok L cfg (dispose e)" by (rule dispose_cache_ok)
  fix k v assume c: "patternCache e k = Some v"
  with ok show w: "isWithinAllowedDirectories cfg k" and v: "v = evaluatePatterns L cfg k"
    by (auto simp: cache_ok_def)
  from c w show "isProtected L cfg e k = (v, e)" by (simp add: isProtected_def)
  from w v show "fst (isProtected L cfg (dispose e) k) = v"
    by (simp add: isProtected_def dispose_def Let_def)
qed

theorem decision_cache_invariant_witness:
  "patternCache
       (snd (isProtected literalLib (defaultsWith [''/tmp/proj''] [''.git''])
          (newEngine (\<lambda>d. True) (\<lambda>d. True) (defaultsWith [''/tmp/proj''] [''.git'']))
          ''/tmp/proj/.git/config''))
       ''/tmp/proj/.git/config'' = Some True
   \<and> isWithinAllowedDirectories (defaultsWith [''/tmp/proj''] [''.git'']) ''/tmp/proj/.git/config''
   \<and> True = evaluatePatterns literalLib (defaultsWith [''/tmp/proj''] [''.git'']) ''/tmp/proj/.git/config''
   \<and> fst (isProtected literalLib (defaultsWith [''/tmp/proj''] [''.git''])
        (dispose (snd (isProtected literalLib (defaultsWith [''/tmp/proj''] [''.git''])
          (newEngine (\<lambda>d. True) (\<lambda>d. True) (defaultsWith [''/tmp/proj''] [''.git'']))
          ''/tmp/proj/.git/config'')))
        ''/tmp/proj/.git/config'') = True"
proof -
  let ?c = "defaultsWith [''/tmp/proj''] [''.git'']"
  let ?e0 = "newEngine (\<lambda>d. True) (\<lambda>d. True) ?c"
  let ?e1 = "snd (isProtected literalLib ?c ?e0 ''/tmp/proj/.git/config'')"
  have e1: "cache_ok literalLib ?c ?e1"
    using decision_cache_invariant[of literalLib ?c "\<lambda>d. True" "\<lambda>d. True" ?e0 "''/tmp/proj/.git/config''"]
    by blast
  have ev: "evaluatePatterns literalLib ?c ''/tmp/proj/.git/config''"
    by (rule scen_eval_git) (simp add: literalLib_def)
  have hit: "patternCache ?e1 ''/tmp/proj/.git/config'' = Some True"
    using ev by (simp add: isProtected_def scen_within newEngine_def Let_def)
  from e1 hit decision_cache_invariant[of literalLib ?c "\<lambda>d. True" "\<lambda>d. True" ?e1]
  show ?thesis by blast
qed

section \<open>Validation\<close>

lemma cache_grows_refl: "cache_grows L cfg e e"
  by (simp add: cache_grows_def)

lemma isProtected_grows:
  assumes "cache_grows L cfg e e'"
  shows "fst (isProtected L cfg e' p) = fst (isProtected L cfg e p)"
    and "cache_grows L cfg e (snd (isProtected L cfg e' p))"
proof -
  from assms have k: "patternCache e' p = patternCache e p \<or>
      (patternCache e p = None \<and> patternCache e' p = Some (evaluatePatterns L cfg p))"
    by (simp add: cache_grows_def)
  then show "fst (isProtected L cfg e' p) = fst (isProtected L cfg e p)"
    by (auto simp: isProtected_def Let_def split: option.splits)
  show "cache_grows L cfg e (snd (isProtected L cfg e' p))"
  proof (cases "isWithinAllowedDirectories cfg p \<and> patternCache e' p = None")
    case False
    then have "snd (isProtected L cfg e' p) = e'"
      by (auto simp: isProtected_def split: option.splits)
    then show ?thesis using assms by simp
  next
    case True
    then have s: "snd (isProtected L cfg e' p) =
        e'\<lparr>patternCache := (patternCache e')(p \<mapsto> evaluatePatterns L cfg p)\<rparr>"
      by (simp add: isProtected_def Let_def)
    from True k have "patternCache e p = None" by auto
    then show ?thesis using assms unfolding s cache_grows_def by auto
  qed
qed

lemma validatePath_grows:
  assumes "cache_grows L cfg e e'"
  shows "fst (validatePath L cfg e' p) = verdict L cfg e p"
    and "cache_grows L cfg e (snd (validatePath L cfg e' p))"
proof -
  have a: "fst (isProtected L cfg e' p) = fst (isProtected L cfg e p)"
    and b: "cache_grows L cfg e (snd (isProtected L cfg e' p))"
    using isProtected_grows[OF assms] by auto
  obtain r1 s1 where p1: "isProtected L cfg e' p = (r1, s1)" by (cases "isProtected L cfg e' p")
  obtain r2 s2 where p2: "isProtected L cfg e p = (r2, s2)" by (cases "isProtected L cfg e p")
  from a p1 p2 have r: "r1 = r2" by simp
  from b p1 have s: "cache_grows L cfg e s1" by simp
  show "fst (validatePath L cfg e' p) = verdict L cfg e p"
    using p1 p2 r by (simp add: verdict_def validatePath_def split: option.splits bool.splits)
  show "cache_grows L cfg e (snd (validatePath L cfg e' p))"
    using p1 s assms by (simp add: validatePath_def split: option.splits bool.splits)
qed

lemma validatePath_cases:
  "verdict L cfg e p =
     (if \<not> isAbsolute L p then
        \<lparr>valid = False, reason = Some ''Only absolute paths are accepted'', matchedDirectory = None\<rparr>
      else if getMatchingAllowedDirectory cfg p = None then
        \<lparr>valid = False, reason = Some ''Path is outside allowed directories'', matchedDirectory = None\<rparr>
      else if fst (isProtected L cfg e p) then
        \<lparr>valid = False, reason = Some ''Path matches protected pattern'', matchedDirectory = None\<rparr>
      else \<lparr>valid = True, reason = None, matchedDirectory = getMatchingAllowedDirectory cfg p\<rparr>)"
  by (cases "isProtected L cfg e p")
     (auto simp: verdict_def validatePath_def split: option.splits bool.splits)

lemma includes_protected:
  "\<not> str_includes ''Only absolute paths are accepted'' ''protected''"
  "\<not> str_includes ''Path is outside allowed directories'' ''protected''"
  "str_includes ''Path matches protected pattern'' ''protected''"
  by (simp_all add: startsWith_def)

lemma protectionFailure_iff:
  "protectionFailure (verdict L cfg e p) \<longleftrightarrow>
     reason (verdict L cfg e p) = Some ''Path matches protected pattern''"
  by (simp add: validatePath_cases protectionFailure_def includes_protected del: str_includes.simps)

lemma invalid_reason:
  "\<not> valid (verdict L cfg e p) \<Longrightarrow> reason (verdict L cfg e p) = Some (reasonText (verdict L cfg e p))"
  by (simp add: validatePath_cases reasonText_def split: if_splits)

lemma validateBatch_loop_char:
  assumes "cache_grows L cfg e e'"
  shows "fst (validateBatch_loop L cfg ps acc e') =
           acc\<lparr>validPaths := validPaths acc @ filter (\<lambda>p. valid (verdict L cfg e p)) ps,
               invalidPaths := invalidPaths acc @
                 map (\<lambda>p. (p, reasonText (verdict L cfg e p)))
                   (filter (\<lambda>p. \<not> valid (verdict L cfg e p) \<and> \<not> protectionFailure (verdict L cfg e p)) ps),
               protectedPaths := protectedPaths acc @
                 map (\<lambda>p. (p, reasonText (verdict L cfg e p)))
                   (filter (\<lambda>p. protectionFailure (verdict L cfg e p)) ps)\<rparr>
         \<and> cache_grows L cfg e (snd (validateBatch_loop L cfg ps acc e'))"
  using assms
proof (induction ps arbitrary: acc e')
  case Nil
  then show ?case by simp
next
  case (Cons p ps)
  obtain v e'' where vp: "validatePath L cfg e' p = (v, e'')" by (cases "validatePath L cfg e' p")
  from validatePath_grows[OF Cons.prems, of p] vp
  have v: "v = verdict L cfg e p" and g: "cache_grows L cfg e e''" by auto
  show ?case
  proof (cases "valid (verdict L cfg e p)")
    case True
    then have npf: "\<not> protectionFailure (verdict L cfg e p)" by (simp add: protectionFailure_def)
    show ?thesis using Cons.IH[OF g] vp v True npf by simp
  next
    case False
    note inv = invalid_reason[OF False]
    show ?thesis
    proof (cases "protectionFailure (verdict L cfg e p)")
      case True
      then have "str_includes (reasonText (verdict L cfg e p)) ''protected''"
        using inv by (simp add: protectionFailure_def)
      then show ?thesis using Cons.IH[OF g] vp v False True inv by simp
    next
      case nf: False
      then have "\<not> str_includes (reasonText (verdict L cfg e p)) ''protected''"
        using inv False by (simp add: protectionFailure_def)
      then show ?thesis using Cons.IH[OF g] vp v False nf inv by simp
    qed
  qed
qed

lemma validateBatch_char:
  "fst (validateBatch L cfg e ps) =
     \<lparr>batchValid = (\<forall>p\<in>set ps. valid (verdict L cfg e p)),
      validPaths = filter (\<lambda>p. valid (verdict L cfg e p)) ps,
      invalidPaths = map (\<lambda>p. (p, reasonText (verdict L cfg e p)))
         (filter (\<lambda>p. \<not> valid (verdict L cfg e p) \<and> \<not> protectionFailure (verdict L cfg e p)) ps),
      protectedPaths = map (\<lambda>p. (p, reasonText (verdict L cfg e p)))
         (filter (\<lambda>p. protectionFailure (verdict L cfg e p)) ps)\<rparr>"
  and validateBatch_grows: "cache_grows L cfg e (snd (validateBatch L cfg e ps))"
proof -
  let ?acc = "\<lparr>batchValid = True, validPaths = [], invalidPaths = [], protectedPaths = []\<rparr>"
  obtain r e' where l: "validateBatch_loop L cfg ps ?acc e = (r, e')"
    by (cases "validateBatch_loop L cfg ps ?acc e")
  from validateBatch_loop_char[OF cache_grows_refl, of L cfg ps ?acc e] l
  have r: "r = ?acc\<lparr>validPaths := filter (\<lambda>p. valid (verdict L cfg e p)) ps,
               invalidPaths := 
                 map (\<lambda>p. (p, reasonText (verdict L cfg e p)))
                   (filter (\<lambda>p. \<not> valid (verdict L cfg e p) \<and> \<not> protectionFailure (verdict L cfg e p)) ps),
               protectedPaths := 
                 map (\<lambda>p. (p, reasonText (verdict L cfg e p)))
                   (filter (\<lambda>p. protectionFailure (verdict L cfg e p)) ps)\<rparr>"
    and g: "cache_grows L cfg e e'" by simp_all
  have "(filter (\<lambda>p. protectionFailure (verdict L cfg e p)) ps = [] \<and>
         filter (\<lambda>p. \<not> valid (verdict L cfg e p) \<and> \<not> protectionFailure (verdict L cfg e p)) ps = [])
        \<longleftrightarrow> (\<forall>p\<in>set ps. valid (verdict L cfg e p))"
    by (auto simp: filter_empty_conv protectionFailure_def)
  then show "fst (validateBatch L cfg e ps) =
     \<lparr>batchValid = (\<forall>p\<in>set ps. valid (verdict L cfg e p)),
      validPaths = filter (\<lambda>p. valid (verdict L cfg e p)) ps,
      invalidPaths = map (\<lambda>p. (p, reasonText (verdict L cfg e p)))
         (filter (\<lambda>p. \<not> valid (verdict L cfg e p) \<and> \<not> protectionFailure (verdict L cfg e p)) ps),
      protectedPaths = map (\<lambda>p. (p, reasonText (verdict L cfg e p)))
         (filter (\<lambda>p. protectionFailure (verdict L cfg e p)) ps)\<rparr>"
    using l r by (simp add: validateBatch_def)
  show "cache_grows L cfg e (snd (validateBatch L cfg e ps))"
    using l g by (simp add: validateBatch_def)
qed

lemma length_three_filters:
  "length (filter P xs) + length (filter (\<lambda>x. \<not> P x \<and> \<not> Q x) xs)
     + length (filter (\<lambda>x. \<not> P x \<and> Q x) xs) = length xs"
  by (induction xs) auto

text \<open>
  Claim C4.  \<open>validatePath\<close> accepts a path exactly when it is absolute, lies in some allowed
  directory and is not protected.  A rejection names the first check that fails, in the order
  absoluteness, scope, protection, with the reasons \<open>Only absolute paths are accepted\<close>,
  \<open>Path is outside allowed directories\<close> and \<open>Path matches protected pattern\<close>.  An accepted
  path comes with the directory \<open>getMatchingAllowedDirectory\<close> returns, which is not null.
\<close>

theorem validatePath_verdict:
  "(valid (fst (validatePath L cfg e p)) \<longleftrightarrow>
      isAbsolute L p \<and> getMatchingAllowedDirectory cfg p \<noteq> None \<and> \<not> fst (isProtected L cfg e p))
   \<and> (\<not> isAbsolute L p \<longrightarrow>
        fst (validatePath L cfg e p) =
          \<lparr>valid = False, reason = Some ''Only absolute paths are accepted'',
           matchedDirectory = None\<rparr>)
   \<and> (isAbsolute L p \<and> getMatchingAllowedDirectory cfg p = None \<longrightarrow>
        fst (validatePath L cfg e p) =
          \<lparr>valid = False, reason = Some ''Path is outside allowed directories'',
           matchedDirectory = None\<rparr>)
   \<and> (isAbsolute L p \<and> getMatchingAllowedDirectory cfg p \<noteq> None \<and> fst (isProtected L cfg e p) \<longrightarrow>
        fst (validatePath L cfg e p) =
          \<lparr>valid = False, reason = Some ''Path matches protected pattern'',
           matchedDirectory = None\<rparr>)
   \<and> (valid (fst (validatePath L cfg e p)) \<longrightarrow>
        fst (validatePath L cfg e p) =
          \<lparr>valid = True, reason = None,
           matchedDirectory = getMatchingAllowedDirectory cfg p\<rparr>
        \<and> getMatchingAllowedDirectory cfg p \<noteq> None)"
  by (cases "isAbsolute L p"; cases "getMatchingAllowedDirectory cfg p";
      cases "fst (isProtected L cfg e p)")
     (simp_all add: validatePath_cases[unfolded verdict_def])

lemma lit_eval_readme:
  "\<not> evaluatePatterns literalLib (defaultsWith [''/tmp/proj''] [''.git'']) ''/tmp/proj/readme.md''"
  by (rule scen_eval_readme) (simp_all add: literalLib_def lastSegment_def)

lemma lit_eval_git:
  "evaluatePatterns literalLib (defaultsWith [''/tmp/proj''] [''.git'']) ''/tmp/proj/.git/config''"
  by (rule scen_eval_git) (simp add: literalLib_def)

lemma scen_matching:
  "getMatchingAllowedDirectory (defaultsWith [''/tmp/proj''] [''.git'']) ''/tmp/proj/readme.md'' = Some ''/tmp/proj''"
  "getMatchingAllowedDirectory (defaultsWith [''/tmp/proj''] [''.git'']) ''/tmp/proj/.git/config'' = Some ''/tmp/proj''"
  "getMatchingAllowedDirectory (defaultsWith [''/tmp/proj''] [''.git'']) ''/etc/passwd'' = None"
  by (simp_all add: getMatchingAllowedDirectory_def defaultsWith_def dirMatches_def startsWith_def)

lemma lit_abs: "isAbsolute literalLib ''/tmp/proj/readme.md''" "isAbsolute literalLib ''/tmp/proj/.git/config''"
  "isAbsolute literalLib ''/etc/passwd''" "\<not> isAbsolute literalLib ''readme.md''"
  by (simp_all add: literalLib_def startsWith_def)

lemma new_isProtected:
  "isWithinAllowedDirectories cfg p \<Longrightarrow>
   fst (isProtected L cfg (newEngine ex wa cfg) p) = evaluatePatterns L cfg p"
  by (simp add: isProtected_def newEngine_def Let_def)

theorem validatePath_verdict_witness:
  "fst (validatePath literalLib (defaultsWith [''/tmp/proj''] [''.git''])
      (newEngine (\<lambda>d. True) (\<lambda>d. True) (defaultsWith [''/tmp/proj''] [''.git''])) ''/tmp/proj/readme.md'')
     = \<lparr>valid = True, reason = None, matchedDirectory = Some ''/tmp/proj''\<rparr>
   \<and> fst (validatePath literalLib (defaultsWith [''/tmp/proj''] [''.git''])
      (newEngine (\<lambda>d. True) (\<lambda>d. True) (defaultsWith [''/tmp/proj''] [''.git''])) ''readme.md'')
     = \<lparr>valid = False, reason = Some ''Only absolute paths are accepted'', matchedDirectory = None\<rparr>
   \<and> fst (validatePath literalLib (defaultsWith [''/tmp/proj''] [''.git''])
      (newEngine (\<lambda>d. True) (\<lambda>d. True) (defaultsWith [''/tmp/proj''] [''.git''])) ''/etc/passwd'')
     = \<lparr>valid = False, reason = Some ''Path is outside allowed directories'', matchedDirectory = None\<rparr>
   \<and> fst (validatePath literalLib (defaultsWith [''/tmp/proj''] [''.git''])
      (newEngine (\<lambda>d. True) (\<lambda>d. True) (defaultsWith [''/tmp/proj''] [''.git''])) ''/tmp/proj/.git/config'')
     = \<lparr>valid = False, reason = Some ''Path matches protected pattern'', matchedDirectory = None\<rparr>"
proof -
  let ?c = "defaultsWith [''/tmp/proj''] [''.git'']"
  let ?e = "newEngine (\<lambda>d. True) (\<lambda>d. True) ?c"
  have p1: "\<not> fst (isProtected literalLib ?c ?e ''/tmp/proj/readme.md'')"
    by (simp add: new_isProtected scen_within lit_eval_readme)
  have p2: "fst (isProtected literalLib ?c ?e ''/tmp/proj/.git/config'')"
    by (simp add: new_isProtected scen_within lit_eval_git)
  show ?thesis
    using validatePath_verdict[of literalLib ?c ?e "''/tmp/proj/readme.md''"]
      validatePath_verdict[of literalLib ?c ?e "''readme.md''"]
      validatePath_verdict[of literalLib ?c ?e "''/etc/passwd''"]
      validatePath_verdict[of literalLib ?c ?e "''/tmp/proj/.git/config''"]
      p1 p2 lit_abs scen_matching
    by simp
qed

text \<open>
  Claim C5.  \<open>validateBatch\<close> sorts every input path by the verdict of \<open>validatePath\<close>:
  accepted paths form \<open>validPaths\<close>, the paths rejected for protection form \<open>protectedPaths\<close>,
  the paths rejected for another reason form \<open>invalidPaths\<close>, each in input order and each
  rejected path with its reason.  The three lists together are as long as the input, and the
  flag \<open>valid\<close> says that \<open>invalidPaths\<close> and \<open>protectedPaths\<close> are both empty.
\<close>

theorem validateBatch_partition:
  "validPaths (fst (validateBatch L cfg e ps)) =
      filter (\<lambda>p. valid (fst (validatePath L cfg e p))) ps
   \<and> protectedPaths (fst (validateBatch L cfg e ps)) =
      map (\<lambda>p. (p, ''Path matches protected pattern''))
        (filter (\<lambda>p. \<not> valid (fst (validatePath L cfg e p)) \<and>
                     reason (fst (validatePath L cfg e p)) = Some ''Path matches protected pattern'')
           ps)
   \<and> invalidPaths (fst (validateBatch L cfg e ps)) =
      map (\<lambda>p. (p, reasonText (fst (validatePath L cfg e p))))
        (filter (\<lambda>p. \<not> valid (fst (validatePath L cfg e p)) \<and>
                     reason (fst (validatePath L cfg e p)) \<noteq> Some ''Path matches protected pattern'')
           ps)
   \<and> length (validPaths (fst (validateBatch L cfg e ps)))
       + length (invalidPaths (fst (validateBatch L cfg e ps)))
       + length (protectedPaths (fst (validateBatch L cfg e ps))) = length ps
   \<and> (batchValid (fst (validateBatch L cfg e ps)) \<longleftrightarrow>
        invalidPaths (fst (validateBatch L cfg e ps)) = [] \<and>
        protectedPaths (fst (validateBatch L cfg e ps)) = [])"
proof -
  let ?V = "\<lambda>p. fst (validatePath L cfg e p)"
  have V: "verdict L cfg e = ?V" by (simp add: verdict_def fun_eq_iff)
  have pf: "\<And>p. protectionFailure (?V p) \<longleftrightarrow>
      (\<not> valid (?V p) \<and> reason (?V p) = Some ''Path matches protected pattern'')"
    using protectionFailure_iff[of L cfg e] by (auto simp: verdict_def protectionFailure_def)
  have rt: "\<And>p. protectionFailure (?V p) \<Longrightarrow> reasonText (?V p) = ''Path matches protected pattern''"
    by (simp add: pf reasonText_def)
  have c: "fst (validateBatch L cfg e ps) =
     \<lparr>batchValid = (\<forall>p\<in>set ps. valid (?V p)),
      validPaths = filter (\<lambda>p. valid (?V p)) ps,
      invalidPaths = map (\<lambda>p. (p, reasonText (?V p)))
         (filter (\<lambda>p. \<not> valid (?V p) \<and> \<not> protectionFailure (?V p)) ps),
      protectedPaths = map (\<lambda>p. (p, reasonText (?V p)))
         (filter (\<lambda>p. protectionFailure (?V p)) ps)\<rparr>"
    using validateBatch_char[of L cfg e ps] by (simp add: V)
  have f1: "filter (\<lambda>p. \<not> valid (?V p) \<and> \<not> protectionFailure (?V p)) ps =
        filter (\<lambda>p. \<not> valid (?V p) \<and> reason (?V p) \<noteq> Some ''Path matches protected pattern'') ps"
    by (rule filter_cong) (auto simp: pf)
  have f2: "filter (\<lambda>p. protectionFailure (?V p)) ps =
        filter (\<lambda>p. \<not> valid (?V p) \<and> reason (?V p) = Some ''Path matches protected pattern'') ps"
    by (rule filter_cong) (auto simp: pf)
  have m: "map (\<lambda>p. (p, reasonText (?V p))) (filter (\<lambda>p. protectionFailure (?V p)) ps)
      = map (\<lambda>p. (p, ''Path matches protected pattern'')) (filter (\<lambda>p. protectionFailure (?V p)) ps)"
    by (rule map_cong) (auto simp: rt)
  have len: "length (filter (\<lambda>p. valid (?V p)) ps)
       + length (filter (\<lambda>p. \<not> valid (?V p) \<and> \<not> protectionFailure (?V p)) ps)
       + length (filter (\<lambda>p. \<not> valid (?V p) \<and> protectionFailure (?V p)) ps) = length ps"
    by (rule length_three_filters)
  have f3: "filter (\<lambda>p. \<not> valid (?V p) \<and> protectionFailure (?V p)) ps
      = filter (\<lambda>p. protectionFailure (?V p)) ps"
    by (rule filter_cong) (auto simp: protectionFailure_def)
  have bv: "(\<forall>p\<in>set ps. valid (?V p)) \<longleftrightarrow>
     (filter (\<lambda>p. \<not> valid (?V p) \<and> \<not> protectionFailure (?V p)) ps = [] \<and>
      filter (\<lambda>p. protectionFailure (?V p)) ps = [])"
    by (auto simp: filter_empty_conv protectionFailure_def)
  show ?thesis
    unfolding c using len bv by (simp add: m f3 flip: f1 f2)
qed

lemma deleteBatch_oversize:
  "length ps > maxBatchSize cfg \<Longrightarrow>
   deleteBatch L F cfg w ps =
     (\<lparr>deleted = [], failed = [],
       rejected = map (\<lambda>p. (p, ''Batch size exceeds limit ('' @ digitsOf (maxBatchSize cfg) @ '')'')) ps,
       cancelled = Some True, batchReason = Some ''Batch size limit exceeded''\<rparr>, w)"
  by (simp add: deleteBatch_def)

lemma deleteBatch_invalid:
  assumes "length ps \<le> maxBatchSize cfg"
    and "\<not> batchValid (fst (validateBatch L cfg (protectionEngine w) ps))"
  shows "deleteBatch L F cfg w ps =
     (\<lparr>deleted = [], failed = [],
       rejected = invalidPaths (fst (validateBatch L cfg (protectionEngine w) ps)) @
                  protectedPaths (fst (validateBatch L cfg (protectionEngine w) ps)),
       cancelled = Some True,
       batchReason = Some ''Batch contains protected or invalid paths''\<rparr>,
      w\<lparr>protectionEngine := snd (validateBatch L cfg (protectionEngine w) ps)\<rparr>)"
  using assms
  by (cases "validateBatch L cfg (protectionEngine w) ps") (simp add: deleteBatch_def)

lemma deleteBatch_valid:
  assumes "length ps \<le> maxBatchSize cfg"
    and "batchValid (fst (validateBatch L cfg (protectionEngine w) ps))"
  shows "deleteBatch L F cfg w ps =
     (let results = fst (deleteAll L F cfg
                      (w\<lparr>protectionEngine := snd (validateBatch L cfg (protectionEngine w) ps)\<rparr>) ps)
      in \<lparr>deleted = map fst (filter (\<lambda>(p, r). success r) results),
           failed = map (\<lambda>(p, r). (p, failureText r)) (filter (\<lambda>(p, r). \<not> success r) results),
           rejected = [], cancelled = None, batchReason = None\<rparr>,
      snd (deleteAll L F cfg
             (w\<lparr>protectionEngine := snd (validateBatch L cfg (protectionEngine w) ps)\<rparr>) ps))"
proof -
  obtain v e' where vb: "validateBatch L cfg (protectionEngine w) ps = (v, e')"
    by (cases "validateBatch L cfg (protectionEngine w) ps")
  from assms(2) vb validateBatch_char[of L cfg "protectionEngine w" ps]
  have all: "\<forall>p\<in>set ps. valid (verdict L cfg (protectionEngine w) p)" by simp
  then have "filter (\<lambda>p. valid (verdict L cfg (protectionEngine w) p)) ps = ps" by simp
  with vb validateBatch_char[of L cfg "protectionEngine w" ps]
  have vp: "validPaths v = ps" by simp
  show ?thesis
    using assms vb vp
    by (cases "deleteAll L F cfg (w\<lparr>protectionEngine := e'\<rparr>) ps")
       (simp add: deleteBatch_def Let_def)
qed

lemma batchValid_iff:
  "batchValid (fst (validateBatch L cfg e ps)) \<longleftrightarrow> (\<forall>p\<in>set ps. valid (fst (validatePath L cfg e p)))"
  using validateBatch_char[of L cfg e ps] by (simp add: verdict_def)

text \<open>
  Claim C2.  A batch within the size limit that fails validation is cancelled as a whole:
  nothing is deleted or failed, \<open>rejected\<close> is \<open>invalidPaths\<close> followed by \<open>protectedPaths\<close>,
  \<open>cancelled\<close> is true, the reason is \<open>Batch contains protected or invalid paths\<close>, and the
  disk, the filesystem calls and the logger calls are as before.  Whenever \<open>deleteBatch\<close> does
  call the filesystem, every member of the batch passed validation.
\<close>

theorem deleteBatch_cancels_invalid_batch:
  "(length ps \<le> maxBatchSize cfg \<and>
    \<not> batchValid (fst (validateBatch L cfg (protectionEngine w) ps)) \<longrightarrow>
      fst (deleteBatch L F cfg w ps) =
        \<lparr>deleted = [], failed = [],
         rejected = invalidPaths (fst (validateBatch L cfg (protectionEngine w) ps)) @
                    protectedPaths (fst (validateBatch L cfg (protectionEngine w) ps)),
         cancelled = Some True,
         batchReason = Some ''Batch contains protected or invalid paths''\<rparr>
    \<and> disk (snd (deleteBatch L F cfg w ps)) = disk w
    \<and> fsCalls (snd (deleteBatch L F cfg w ps)) = fsCalls w
    \<and> logCalls (snd (deleteBatch L F cfg w ps)) = logCalls w)
   \<and> (fsCalls (snd (deleteBatch L F cfg w ps)) \<noteq> fsCalls w \<longrightarrow>
        (\<forall>p\<in>set ps. valid (fst (validatePath L cfg (protectionEngine w) p))))"
proof (intro conjI impI)
  assume a: "length ps \<le> maxBatchSize cfg \<and>
    \<not> batchValid (fst (validateBatch L cfg (protectionEngine w) ps))"
  then have d: "deleteBatch L F cfg w ps =
     (\<lparr>deleted = [], failed = [],
       rejected = invalidPaths (fst (validateBatch L cfg (protectionEngine w) ps)) @
                  protectedPaths (fst (validateBatch L cfg (protectionEngine w) ps)),
       cancelled = Some True,
       batchReason = Some ''Batch contains protected or invalid paths''\<rparr>,
      w\<lparr>protectionEngine := snd (validateBatch L cfg (protectionEngine w) ps)\<rparr>)"
    by (simp add: deleteBatch_invalid)
  show "fst (deleteBatch L F cfg w ps) =
        \<lparr>deleted = [], failed = [],
         rejected = invalidPaths (fst (validateBatch L cfg (protectionEngine w) ps)) @
                    protectedPaths (fst (validateBatch L cfg (protectionEngine w) ps)),
         cancelled = Some True,
         batchReason = Some ''Batch contains protected or invalid paths''\<rparr>"
    by (simp add: d)
  show "disk (snd (deleteBatch L F cfg w ps)) = disk w" by (simp add: d)
  show "fsCalls (snd (deleteBatch L F cfg w ps)) = fsCalls w" by (simp add: d)
  show "logCalls (snd (deleteBatch L F cfg w ps)) = logCalls w" by (simp add: d)
next
  assume c: "fsCalls (snd (deleteBatch L F cfg w ps)) \<noteq> fsCalls w"
  have 1: "\<not> length ps > maxBatchSize cfg"
    using c by (auto simp: deleteBatch_oversize)
  have 2: "batchValid (fst (validateBatch L cfg (protectionEngine w) ps))"
  proof (rule ccontr)
    assume n: "\<not> batchValid (fst (validateBatch L cfg (protectionEngine w) ps))"
    from 1 have "length ps \<le> maxBatchSize cfg" by simp
    from deleteBatch_invalid[OF this n, of F] c show False by simp
  qed
  then show "\<forall>p\<in>set ps. valid (fst (validatePath L cfg (protectionEngine w) p))"
    by (simp add: batchValid_iff)
qed

text \<open>
  Claim C3.  A batch longer than the configured maximum is cancelled at once: every input
  path is in \<open>rejected\<close>, in input order, with the reason \<open>Batch size exceeds limit (n)\<close>,
  \<open>cancelled\<close> is true, the reason of the batch is \<open>Batch size limit exceeded\<close>, \<open>deleted\<close> and
  \<open>failed\<close> are empty, and the engine, the disk and the record of calls are untouched.
\<close>

theorem deleteBatch_size_limit:
  "length ps > maxBatchSize cfg \<longrightarrow>
     deleteBatch L F cfg w ps =
       (\<lparr>deleted = [], failed = [],
         rejected = map (\<lambda>p. (p, ''Batch size exceeds limit ('' @ digitsOf (maxBatchSize cfg) @ '')'')) ps,
         cancelled = Some True, batchReason = Some ''Batch size limit exceeded''\<rparr>, w)
     \<and> map fst (rejected (fst (deleteBatch L F cfg w ps))) = ps"
  by (simp add: deleteBatch_oversize comp_def)


lemma deleteFile_not_found:
  assumes "valid (fst (validatePath L cfg (protectionEngine w) p))"
    and "\<not> existsSync F (disk w) p"
  shows "deleteFile L F cfg w p =
     (\<lparr>success = False, path = Some p, err = Some ''File not found'', why = None\<rparr>,
      w\<lparr>protectionEngine := snd (validatePath L cfg (protectionEngine w) p),
        fsCalls := fsCalls w @ [ExistsSync p],
        logCalls := logCalls w @ [LogDeletion p Failed]\<rparr>)"
  using assms
  by (cases "validatePath L cfg (protectionEngine w) p") (simp add: deleteFile_def Let_def)

lemma deleteDirectory_not_found:
  assumes "valid (fst (validatePath L cfg (protectionEngine w) p))"
    and "\<not> existsSync F (disk w) p"
  shows "deleteDirectory L F cfg w p =
     (\<lparr>success = False, path = Some p, err = Some ''Directory not found'', why = None\<rparr>,
      w\<lparr>protectionEngine := snd (validatePath L cfg (protectionEngine w) p),
        fsCalls := fsCalls w @ [ExistsSync p],
        logCalls := logCalls w @ [LogDeletion p Failed]\<rparr>)"
  using assms
  by (cases "validatePath L cfg (protectionEngine w) p") (simp add: deleteDirectory_def Let_def)

lemma deleteFile_engine:
  "protectionEngine (snd (deleteFile L F cfg w q)) = snd (validatePath L cfg (protectionEngine w) q)"
  by (cases "validatePath L cfg (protectionEngine w) q")
     (simp add: deleteFile_def Let_def split: fs_result.splits)

lemma deleteFile_disk:
  "disk (snd (deleteFile L F cfg w q)) = disk w \<or>
   disk (snd (deleteFile L F cfg w q)) = after (unlink F (disk w) q)"
  by (cases "validatePath L cfg (protectionEngine w) q")
     (simp add: deleteFile_def Let_def split: fs_result.splits)

lemma deleteFile_log:
  "\<exists>ls. logCalls (snd (deleteFile L F cfg w q)) = logCalls w @ ls"
  by (cases "validatePath L cfg (protectionEngine w) q")
     (simp add: deleteFile_def Let_def split: fs_result.splits)

lemma deleteAll_paths: "map fst (fst (deleteAll L F cfg w ps)) = ps"
proof (induction ps arbitrary: w)
  case Nil
  then show ?case by simp
next
  case (Cons q ps)
  obtain r w' where d: "deleteFile L F cfg w q = (r, w')" by (cases "deleteFile L F cfg w q")
  obtain rs w'' where da: "deleteAll L F cfg w' ps = (rs, w'')" by (cases "deleteAll L F cfg w' ps")
  from Cons.IH[of w'] da have "map fst rs = ps" by simp
  then show ?case using d da by simp
qed

lemma length_split_results:
  "length (filter (\<lambda>(p, r). P r) xs) + length (filter (\<lambda>(p, r). \<not> P r) xs) = length xs"
  by (induction xs) auto

lemma deleteAll_log: "set (logCalls w) \<subseteq> set (logCalls (snd (deleteAll L F cfg w ps)))"
proof (induction ps arbitrary: w)
  case Nil
  then show ?case by simp
next
  case (Cons q ps)
  obtain r w' where d: "deleteFile L F cfg w q = (r, w')" by (cases "deleteFile L F cfg w q")
  from deleteFile_log[of L F cfg w q] d obtain ls where "logCalls w' = logCalls w @ ls" by auto
  then have "set (logCalls w) \<subseteq> set (logCalls w')" by auto
  with Cons.IH[of w'] show ?case using d by (auto split: prod.splits)
qed

lemma deleteAll_absent:
  assumes "cache_grows L cfg e0 (protectionEngine w)"
    and "\<forall>q\<in>set ps. valid (verdict L cfg e0 q)"
    and "\<not> existsSync F (disk w) p"
    and "staysAbsent F p"
  shows "(\<forall>r. (p, r) \<in> set (fst (deleteAll L F cfg w ps)) \<longrightarrow> r = notFound p)
       \<and> (p \<in> set ps \<longrightarrow> LogDeletion p Failed \<in> set (logCalls (snd (deleteAll L F cfg w ps))))"
  using assms
proof (induction ps arbitrary: w)
  case Nil
  then show ?case by simp
next
  case (Cons q ps)
  obtain r w' where d: "deleteFile L F cfg w q = (r, w')" by (cases "deleteFile L F cfg w q")
  obtain rs w'' where da: "deleteAll L F cfg w' ps = (rs, w'')" by (cases "deleteAll L F cfg w' ps")
  have vq: "fst (validatePath L cfg (protectionEngine w) q) = verdict L cfg e0 q"
    and g: "cache_grows L cfg e0 (snd (validatePath L cfg (protectionEngine w) q))"
    using validatePath_grows[OF Cons.prems(1), of q] by auto
  from g deleteFile_engine[of L F cfg w q] d have g': "cache_grows L cfg e0 (protectionEngine w')"
    by simp
  from deleteFile_disk[of L F cfg w q] d Cons.prems(3,4)
  have ab: "\<not> existsSync F (disk w') p" by (auto simp: staysAbsent_def)
  from Cons.prems(2) have vs: "\<forall>q\<in>set ps. valid (verdict L cfg e0 q)" by simp
  note ih = Cons.IH[OF g' vs ab Cons.prems(4)]
  have here: "q = p \<Longrightarrow> r = notFound p \<and> LogDeletion p Failed \<in> set (logCalls w')"
  proof -
    assume qp: "q = p"
    from Cons.prems(2) vq qp have "valid (fst (validatePath L cfg (protectionEngine w) p))" by simp
    from deleteFile_not_found[OF this Cons.prems(3)] d qp
    show ?thesis by (auto simp: notFound_def)
  qed
  from deleteAll_log[of w' L F cfg ps] da have mono: "set (logCalls w') \<subseteq> set (logCalls w'')" by simp
  show ?case using d da ih here mono by auto
qed

text \<open>
  Claim C7.  For a path that passes validation and is absent from the disk, \<open>deleteFile\<close> and
  \<open>deleteDirectory\<close> return a failure with the field \<open>error\<close> set (\<open>File not found\<close>,
  \<open>Directory not found\<close>) and no \<open>reason\<close>, log the outcome \<open>failed\<close> and leave the disk
  alone.  A batch that passed validation rejects nothing and puts every path in \<open>deleted\<close> or
  in \<open>failed\<close>; a member that is absent, and that no \<open>unlink\<close> makes appear, is in \<open>failed\<close>
  with \<open>File not found\<close>, is not in \<open>deleted\<close>, and is logged as \<open>failed\<close>.
\<close>

theorem missing_target_is_failed:
  "(valid (fst (validatePath L cfg (protectionEngine w) p)) \<and> \<not> existsSync F (disk w) p \<longrightarrow>
      fst (deleteFile L F cfg w p) =
        \<lparr>success = False, path = Some p, err = Some ''File not found'', why = None\<rparr>
    \<and> logCalls (snd (deleteFile L F cfg w p)) = logCalls w @ [LogDeletion p Failed]
    \<and> disk (snd (deleteFile L F cfg w p)) = disk w
    \<and> fst (deleteDirectory L F cfg w p) =
        \<lparr>success = False, path = Some p, err = Some ''Directory not found'', why = None\<rparr>
    \<and> logCalls (snd (deleteDirectory L F cfg w p)) = logCalls w @ [LogDeletion p Failed]
    \<and> disk (snd (deleteDirectory L F cfg w p)) = disk w)
   \<and> (length ps \<le> maxBatchSize cfg \<and>
       batchValid (fst (validateBatch L cfg (protectionEngine w) ps)) \<longrightarrow>
        rejected (fst (deleteBatch L F cfg w ps)) = []
      \<and> cancelled (fst (deleteBatch L F cfg w ps)) = None
      \<and> length (deleted (fst (deleteBatch L F cfg w ps)))
          + length (failed (fst (deleteBatch L F cfg w ps))) = length ps
      \<and> (p \<in> set ps \<and> \<not> existsSync F (disk w) p \<and> staysAbsent F p \<longrightarrow>
            (p, ''File not found'') \<in> set (failed (fst (deleteBatch L F cfg w ps)))
          \<and> p \<notin> set (deleted (fst (deleteBatch L F cfg w ps)))
          \<and> LogDeletion p Failed \<in> set (logCalls (snd (deleteBatch L F cfg w ps)))))"
proof (intro conjI impI)
  assume a: "valid (fst (validatePath L cfg (protectionEngine w) p)) \<and> \<not> existsSync F (disk w) p"
  then have v: "valid (fst (validatePath L cfg (protectionEngine w) p))"
    and n: "\<not> existsSync F (disk w) p" by auto
  note f = deleteFile_not_found[OF v n] and d = deleteDirectory_not_found[OF v n]
  show "fst (deleteFile L F cfg w p) =
        \<lparr>success = False, path = Some p, err = Some ''File not found'', why = None\<rparr>"
    by (simp add: f)
  show "logCalls (snd (deleteFile L F cfg w p)) = logCalls w @ [LogDeletion p Failed]" by (simp add: f)
  show "disk (snd (deleteFile L F cfg w p)) = disk w" by (simp add: f)
  show "fst (deleteDirectory L F cfg w p) =
        \<lparr>success = False, path = Some p, err = Some ''Directory not found'', why = None\<rparr>"
    by (simp add: d)
  show "logCalls (snd (deleteDirectory L F cfg w p)) = logCalls w @ [LogDeletion p Failed]"
    by (simp add: d)
  show "disk (snd (deleteDirectory L F cfg w p)) = disk w" by (simp add: d)
next
  assume b: "length ps \<le> maxBatchSize cfg \<and>
       batchValid (fst (validateBatch L cfg (protectionEngine w) ps))"
  let ?w1 = "w\<lparr>protectionEngine := snd (validateBatch L cfg (protectionEngine w) ps)\<rparr>"
  let ?rs = "fst (deleteAll L F cfg ?w1 ps)"
  from b have db: "deleteBatch L F cfg w ps =
     (\<lparr>deleted = map fst (filter (\<lambda>(p, r). success r) ?rs),
           failed = map (\<lambda>(p, r). (p, failureText r)) (filter (\<lambda>(p, r). \<not> success r) ?rs),
           rejected = [], cancelled = None, batchReason = None\<rparr>,
      snd (deleteAll L F cfg ?w1 ps))"
    using deleteBatch_valid[of ps cfg L w F] by (simp add: Let_def)
  show "rejected (fst (deleteBatch L F cfg w ps)) = []" by (simp add: db)
  show "cancelled (fst (deleteBatch L F cfg w ps)) = None" by (simp add: db)
  have "length (filter (\<lambda>(p, r). success r) ?rs) + length (filter (\<lambda>(p, r). \<not> success r) ?rs)
        = length ?rs"
    by (rule length_split_results)
  moreover have "length ?rs = length ps"
    using deleteAll_paths[of L F cfg ?w1 ps] by (metis length_map)
  ultimately show "length (deleted (fst (deleteBatch L F cfg w ps)))
          + length (failed (fst (deleteBatch L F cfg w ps))) = length ps"
    by (simp add: db)
  assume c: "p \<in> set ps \<and> \<not> existsSync F (disk w) p \<and> staysAbsent F p"
  have g: "cache_grows L cfg (protectionEngine w) (protectionEngine ?w1)"
    by (simp add: validateBatch_grows)
  from b have vs: "\<forall>q\<in>set ps. valid (verdict L cfg (protectionEngine w) q)"
    by (simp add: batchValid_iff verdict_def)
  from c have n: "\<not> existsSync F (disk ?w1) p" by simp
  from c have sa: "staysAbsent F p" by simp
  note ab = deleteAll_absent[OF g vs n sa]
  from c deleteAll_paths[of L F cfg ?w1 ps] have "p \<in> fst ` set ?rs"
    by (metis set_map)
  then obtain r where pr: "(p, r) \<in> set ?rs" by auto
  with ab have r: "r = notFound p" by blast
  from pr r have "(p, notFound p) \<in> set (filter (\<lambda>(p, r). \<not> success r) ?rs)"
    by (simp add: notFound_def)
  then have "(\<lambda>(p, r). (p, failureText r)) (p, notFound p)
      \<in> set (map (\<lambda>(p, r). (p, failureText r)) (filter (\<lambda>(p, r). \<not> success r) ?rs))"
    by (metis (no_types, lifting) image_eqI set_map)
  then show "(p, ''File not found'') \<in> set (failed (fst (deleteBatch L F cfg w ps)))"
    by (simp add: db notFound_def failureText_def)
  show "p \<notin> set (deleted (fst (deleteBatch L F cfg w ps)))"
  proof
    assume "p \<in> set (deleted (fst (deleteBatch L F cfg w ps)))"
    then obtain r' where "(p, r') \<in> set ?rs" "success r'" by (auto simp: db)
    with ab show False by (auto simp: notFound_def)
  qed
  from ab c show "LogDeletion p Failed \<in> set (logCalls (snd (deleteBatch L F cfg w ps)))"
    by (simp add: db)
qed

lemma verdict_new:
  "verdict L cfg (newEngine ex wa cfg) p =
     (if \<not> isAbsolute L p then
        \<lparr>valid = False, reason = Some ''Only absolute paths are accepted'', matchedDirectory = None\<rparr>
      else if getMatchingAllowedDirectory cfg p = None then
        \<lparr>valid = False, reason = Some ''Path is outside allowed directories'', matchedDirectory = None\<rparr>
      else if evaluatePatterns L cfg p then
        \<lparr>valid = False, reason = Some ''Path matches protected pattern'', matchedDirectory = None\<rparr>
      else \<lparr>valid = True, reason = None, matchedDirectory = getMatchingAllowedDirectory cfg p\<rparr>)"
  by (simp add: validatePath_cases getMatching_None new_isProtected)

lemma lit_paths:
  "isAbsolute literalLib ''/tmp/proj/a.txt''"
  "isAbsolute literalLib ''/tmp/proj/b.txt''"
  "isAbsolute literalLib ''/tmp/proj/.git/HEAD''"
  "getMatchingAllowedDirectory (defaultsWith [''/tmp/proj''] [''.git'']) ''/tmp/proj/a.txt'' = Some ''/tmp/proj''"
  "getMatchingAllowedDirectory (defaultsWith [''/tmp/proj''] [''.git'']) ''/tmp/proj/b.txt'' = Some ''/tmp/proj''"
  "getMatchingAllowedDirectory (defaultsWith [''/tmp/proj''] [''.git'']) ''/tmp/proj/.git/HEAD'' = Some ''/tmp/proj''"
  "\<not> evaluatePatterns literalLib (defaultsWith [''/tmp/proj''] [''.git'']) ''/tmp/proj/a.txt''"
  "\<not> evaluatePatterns literalLib (defaultsWith [''/tmp/proj''] [''.git'']) ''/tmp/proj/b.txt''"
  "evaluatePatterns literalLib (defaultsWith [''/tmp/proj''] [''.git'']) ''/tmp/proj/.git/HEAD''"
  by (simp_all add: literalLib_def startsWith_def getMatchingAllowedDirectory_def defaultsWith_def
        dirMatches_def evaluatePatterns_def patternMatches_def lastSegment_def
        stripTrailingSlash_def Let_def)

lemma lit_verdicts:
  "verdict literalLib (defaultsWith [''/tmp/proj''] [''.git''])
      (newEngine ex wa (defaultsWith [''/tmp/proj''] [''.git''])) ''/tmp/proj/readme.md''
     = \<lparr>valid = True, reason = None, matchedDirectory = Some ''/tmp/proj''\<rparr>"
  "verdict literalLib (defaultsWith [''/tmp/proj''] [''.git''])
      (newEngine ex wa (defaultsWith [''/tmp/proj''] [''.git''])) ''/tmp/proj/a.txt''
     = \<lparr>valid = True, reason = None, matchedDirectory = Some ''/tmp/proj''\<rparr>"
  "verdict literalLib (defaultsWith [''/tmp/proj''] [''.git''])
      (newEngine ex wa (defaultsWith [''/tmp/proj''] [''.git''])) ''/tmp/proj/b.txt''
     = \<lparr>valid = True, reason = None, matchedDirectory = Some ''/tmp/proj''\<rparr>"
  "verdict literalLib (defaultsWith [''/tmp/proj''] [''.git''])
      (newEngine ex wa (defaultsWith [''/tmp/proj''] [''.git''])) ''readme.md''
     = \<lparr>valid = False, reason = Some ''Only absolute paths are accepted'', matchedDirectory = None\<rparr>"
  "verdict literalLib (defaultsWith [''/tmp/proj''] [''.git''])
      (newEngine ex wa (defaultsWith [''/tmp/proj''] [''.git''])) ''/etc/passwd''
     = \<lparr>valid = False, reason = Some ''Path is outside allowed directories'', matchedDirectory = None\<rparr>"
  "verdict literalLib (defaultsWith [''/tmp/proj''] [''.git''])
      (newEngine ex wa (defaultsWith [''/tmp/proj''] [''.git''])) ''/tmp/proj/.git/config''
     = \<lparr>valid = False, reason = Some ''Path matches protected pattern'', matchedDirectory = None\<rparr>"
  "verdict literalLib (defaultsWith [''/tmp/proj''] [''.git''])
      (newEngine ex wa (defaultsWith [''/tmp/proj''] [''.git''])) ''/tmp/proj/.git/HEAD''
     = \<lparr>valid = False, reason = Some ''Path matches protected pattern'', matchedDirectory = None\<rparr>"
  by (simp_all add: verdict_new lit_abs lit_paths scen_matching lit_eval_readme lit_eval_git)

lemma reasonText_simps:
  "reasonText \<lparr>valid = b, reason = Some r, matchedDirectory = m\<rparr> = r"
  by (simp add: reasonText_def)

lemma protectionFailure_simps:
  "protectionFailure \<lparr>valid = True, reason = r, matchedDirectory = m\<rparr> = False"
  "protectionFailure \<lparr>valid = False, reason = Some ''Only absolute paths are accepted'', matchedDirectory = m\<rparr> = False"
  "protectionFailure \<lparr>valid = False, reason = Some ''Path is outside allowed directories'', matchedDirectory = m\<rparr> = False"
  "protectionFailure \<lparr>valid = False, reason = Some ''Path matches protected pattern'', matchedDirectory = m\<rparr> = True"
  by (simp_all add: protectionFailure_def includes_protected del: str_includes.simps)

lemma lit_batch_git:
  "fst (validateBatch literalLib (defaultsWith [''/tmp/proj''] [''.git''])
          (newEngine ex wa (defaultsWith [''/tmp/proj''] [''.git'']))
          [''/tmp/proj/a.txt'', ''/tmp/proj/.git/HEAD''])
     = \<lparr>batchValid = False, validPaths = [''/tmp/proj/a.txt''],
        invalidPaths = [],
        protectedPaths = [(''/tmp/proj/.git/HEAD'', ''Path matches protected pattern'')]\<rparr>"
  by (simp add: validateBatch_char lit_verdicts reasonText_simps protectionFailure_simps)

lemma lit_batch_ab:
  "batchValid (fst (validateBatch literalLib (defaultsWith [''/tmp/proj''] [''.git''])
          (newEngine ex wa (defaultsWith [''/tmp/proj''] [''.git'']))
          [''/tmp/proj/a.txt'', ''/tmp/proj/b.txt'']))"
  by (simp add: validateBatch_char lit_verdicts)

theorem validateBatch_partition_witness:
  "validPaths (fst (validateBatch literalLib (defaultsWith [''/tmp/proj''] [''.git''])
          (newEngine (\<lambda>d. True) (\<lambda>d. True) (defaultsWith [''/tmp/proj''] [''.git'']))
          [''/tmp/proj/readme.md'', ''readme.md'', ''/tmp/proj/.git/config'', ''/etc/passwd'']))
      = [''/tmp/proj/readme.md'']
   \<and> protectedPaths (fst (validateBatch literalLib (defaultsWith [''/tmp/proj''] [''.git''])
          (newEngine (\<lambda>d. True) (\<lambda>d. True) (defaultsWith [''/tmp/proj''] [''.git'']))
          [''/tmp/proj/readme.md'', ''readme.md'', ''/tmp/proj/.git/config'', ''/etc/passwd'']))
      = [(''/tmp/proj/.git/config'', ''Path matches protected pattern'')]
   \<and> invalidPaths (fst (validateBatch literalLib (defaultsWith [''/tmp/proj''] [''.git''])
          (newEngine (\<lambda>d. True) (\<lambda>d. True) (defaultsWith [''/tmp/proj''] [''.git'']))
          [''/tmp/proj/readme.md'', ''readme.md'', ''/tmp/proj/.git/config'', ''/etc/passwd'']))
      = [(''readme.md'', ''Only absolute paths are accepted''),
         (''/etc/passwd'', ''Path is outside allowed directories'')]
   \<and> batchValid (fst (validateBatch literalLib (defaultsWith [''/tmp/proj''] [''.git''])
          (newEngine (\<lambda>d. True) (\<lambda>d. True) (defaultsWith [''/tmp/proj''] [''.git'']))
          [''/tmp/proj/readme.md'', ''readme.md'', ''/tmp/proj/.git/config'', ''/etc/passwd''])) = False"
  using validateBatch_partition[of literalLib "defaultsWith [''/tmp/proj''] [''.git'']"
        "newEngine (\<lambda>d. True) (\<lambda>d. True) (defaultsWith [''/tmp/proj''] [''.git''])"
        "[''/tmp/proj/readme.md'', ''readme.md'', ''/tmp/proj/.git/config'', ''/etc/passwd'']"]
  by (simp add: lit_verdicts[unfolded verdict_def] reasonText_simps)

theorem deleteBatch_cancels_invalid_batch_witness:
  "fst (deleteBatch literalLib listDisk (defaultsWith [''/tmp/proj''] [''.git''])
        (newWorld (defaultsWith [''/tmp/proj''] [''.git'']) [''/tmp/proj/a.txt'', ''/tmp/proj/.git/HEAD''])
        [''/tmp/proj/a.txt'', ''/tmp/proj/.git/HEAD''])
     = \<lparr>deleted = [], failed = [],
        rejected = [(''/tmp/proj/.git/HEAD'', ''Path matches protected pattern'')],
        cancelled = Some True,
        batchReason = Some ''Batch contains protected or invalid paths''\<rparr>
   \<and> disk (snd (deleteBatch literalLib listDisk (defaultsWith [''/tmp/proj''] [''.git''])
        (newWorld (defaultsWith [''/tmp/proj''] [''.git'']) [''/tmp/proj/a.txt'', ''/tmp/proj/.git/HEAD''])
        [''/tmp/proj/a.txt'', ''/tmp/proj/.git/HEAD'']))
     = [''/tmp/proj/a.txt'', ''/tmp/proj/.git/HEAD'']
   \<and> fsCalls (snd (deleteBatch literalLib listDisk (defaultsWith [''/tmp/proj''] [''.git''])
        (newWorld (defaultsWith [''/tmp/proj''] [''.git'']) [''/tmp/proj/a.txt'', ''/tmp/proj/.git/HEAD''])
        [''/tmp/proj/a.txt'', ''/tmp/proj/.git/HEAD''])) = []"
proof -
  let ?c = "defaultsWith [''/tmp/proj''] [''.git'']"
  let ?ps = "[''/tmp/proj/a.txt'', ''/tmp/proj/.git/HEAD'']"
  let ?w = "newWorld ?c ?ps"
  have e: "protectionEngine ?w = newEngine (\<lambda>p. True) (\<lambda>p. True) ?c" by (simp add: newWorld_def)
  have l: "length ?ps \<le> maxBatchSize ?c" by (simp add: defaultsWith_def)
  have n: "\<not> batchValid (fst (validateBatch literalLib ?c (protectionEngine ?w) ?ps))"
    by (simp add: e lit_batch_git)
  from deleteBatch_cancels_invalid_batch[of ?ps ?c literalLib ?w listDisk] l n
  show ?thesis by (simp add: e lit_batch_git newWorld_def)
qed

lemma digits50: "digitsOf 50 = ''50''"
  by code_simp

theorem deleteBatch_size_limit_witness:
  "deleteBatch literalLib listDisk
      ((defaultsWith [''/tmp/proj''] [''.git''])\<lparr>maxBatchSize := 50\<rparr>)
      (newWorld (defaultsWith [''/tmp/proj''] [''.git'']) [''/tmp/proj/a.txt''])
      (replicate 51 ''/tmp/proj/a.txt'')
     = (\<lparr>deleted = [], failed = [],
         rejected = replicate 51 (''/tmp/proj/a.txt'', ''Batch size exceeds limit (50)''),
         cancelled = Some True, batchReason = Some ''Batch size limit exceeded''\<rparr>,
        newWorld (defaultsWith [''/tmp/proj''] [''.git'']) [''/tmp/proj/a.txt''])"
proof -
  let ?c = "(defaultsWith [''/tmp/proj''] [''.git''])\<lparr>maxBatchSize := 50\<rparr>"
  have l: "length (replicate 51 ''/tmp/proj/a.txt'') > maxBatchSize ?c" by simp
  have m: "maxBatchSize ?c = 50" by simp
  from deleteBatch_size_limit[of ?c "replicate 51 ''/tmp/proj/a.txt''" literalLib listDisk
          "newWorld (defaultsWith [''/tmp/proj''] [''.git'']) [''/tmp/proj/a.txt'']"] l
  show ?thesis unfolding m digits50 by (simp only: map_replicate append.simps)
qed

lemma listDisk_staysAbsent: "staysAbsent listDisk p"
  by (simp add: staysAbsent_def listDisk_def)

theorem missing_target_is_failed_witness:
  "fst (deleteFile literalLib listDisk (defaultsWith [''/tmp/proj''] [''.git''])
         (newWorld (defaultsWith [''/tmp/proj''] [''.git'']) [''/tmp/proj/a.txt'']) ''/tmp/proj/b.txt'')
     = \<lparr>success = False, path = Some ''/tmp/proj/b.txt'', err = Some ''File not found'', why = None\<rparr>
   \<and> logCalls (snd (deleteFile literalLib listDisk (defaultsWith [''/tmp/proj''] [''.git''])
         (newWorld (defaultsWith [''/tmp/proj''] [''.git'']) [''/tmp/proj/a.txt'']) ''/tmp/proj/b.txt''))
     = [LogDeletion ''/tmp/proj/b.txt'' Failed]
   \<and> fst (deleteDirectory literalLib listDisk (defaultsWith [''/tmp/proj''] [''.git''])
         (newWorld (defaultsWith [''/tmp/proj''] [''.git'']) [''/tmp/proj/a.txt'']) ''/tmp/proj/b.txt'')
     = \<lparr>success = False, path = Some ''/tmp/proj/b.txt'', err = Some ''Directory not found'', why = None\<rparr>
   \<and> rejected (fst (deleteBatch literalLib listDisk (defaultsWith [''/tmp/proj''] [''.git''])
         (newWorld (defaultsWith [''/tmp/proj''] [''.git'']) [''/tmp/proj/a.txt''])
         [''/tmp/proj/a.txt'', ''/tmp/proj/b.txt''])) = []
   \<and> (''/tmp/proj/b.txt'', ''File not found'')
        \<in> set (failed (fst (deleteBatch literalLib listDisk (defaultsWith [''/tmp/proj''] [''.git''])
         (newWorld (defaultsWith [''/tmp/proj''] [''.git'']) [''/tmp/proj/a.txt''])
         [''/tmp/proj/a.txt'', ''/tmp/proj/b.txt''])))
   \<and> ''/tmp/proj/b.txt''
        \<notin> set (deleted (fst (deleteBatch literalLib listDisk (defaultsWith [''/tmp/proj''] [''.git''])
         (newWorld (defaultsWith [''/tmp/proj''] [''.git'']) [''/tmp/proj/a.txt''])
         [''/tmp/proj/a.txt'', ''/tmp/proj/b.txt''])))"
proof -
  let ?c = "defaultsWith [''/tmp/proj''] [''.git'']"
  let ?ps = "[''/tmp/proj/a.txt'', ''/tmp/proj/b.txt'']"
  let ?w = "newWorld ?c [''/tmp/proj/a.txt'']"
  have e: "protectionEngine ?w = newEngine (\<lambda>p. True) (\<lambda>p. True) ?c" by (simp add: newWorld_def)
  have v: "valid (fst (validatePath literalLib ?c (protectionEngine ?w) ''/tmp/proj/b.txt''))"
    by (simp add: e lit_verdicts[unfolded verdict_def])
  have n: "\<not> existsSync listDisk (disk ?w) ''/tmp/proj/b.txt''"
    by (simp add: newWorld_def listDisk_def)
  have l: "length ?ps \<le> maxBatchSize ?c" by (simp add: defaultsWith_def)
  have b: "batchValid (fst (validateBatch literalLib ?c (protectionEngine ?w) ?ps))"
    by (simp add: e lit_batch_ab)
  have m: "''/tmp/proj/b.txt'' \<in> set ?ps" by simp
  have lg: "logCalls ?w = []" by (simp add: newWorld_def)
  from missing_target_is_failed[of literalLib ?c ?w "''/tmp/proj/b.txt''" listDisk ?ps] v n l b m
    listDisk_staysAbsent[of "''/tmp/proj/b.txt''"] lg
  show ?thesis by simp
qed

section \<open>The audit logger: a call awaited alone\<close>

text \<open>
  A task that runs alone goes through its stages one after the other, so the whole call is the
  composition of its steps: \<open>runAlone\<close> from \<open>Start\<close> is \<open>writeAlone\<close>.
\<close>

declare runAlone.simps [simp del]

lemma run_Done: "runAlone E cfg dir Done w = w"
  by (simp add: runAlone.simps)

lemma run_step:
  "t \<noteq> Done \<Longrightarrow> runAlone E cfg dir t w =
     runAlone E cfg dir (fst (resume E cfg dir t w)) (snd (resume E cfg dir t w))"
  by (subst runAlone.simps) (simp add: case_prod_beta)

lemmas run_Mkdir = run_step [where t = "AwaitMkdir k ok" for k ok, simplified]
lemmas run_Stat = run_step [where t = "AwaitStat k st" for k st, simplified]
lemmas run_StartT = run_step [where t = "Start line" for line, simplified]

lemma run_append: "runAlone E cfg dir (AwaitAppend line ok) w = snd (append_return line ok w)"
  by (simp add: run_step run_Done append_return_def)

lemma run_rotate:
  "runAlone E cfg dir (AwaitRotate line) w =
     (let file = currentLogFile (service w);
          fs1 = called (AppendFile file) (lfs w)
      in case fs_appendFile fs1 file line (clockMs (E (tick w))) of
           None \<Rightarrow> w\<lparr>lfs := fs1\<rparr>
         | Some fs2 \<Rightarrow>
             w\<lparr>service := (service w)\<lparr>currentLogFileSize :=
                    currentLogFileSize (service w) + length line\<rparr>,
                lfs := fs2, tick := tick w + 1\<rparr>)"
  by (simp add: run_step run_Done run_append append_call_def append_return_def Let_def split: option.splits)

lemma run_unlink:
  "runAlone E cfg dir (fst (cleanup_unlink line ps w)) (snd (cleanup_unlink line ps w))
     = runAlone E cfg dir (AwaitRotate line) (w\<lparr>lfs := unlinkAll (lfs w) ps\<rparr>)"
proof (induction ps arbitrary: w)
  case Nil
  then show ?case by simp
next
  case (Cons p ps)
  have "runAlone E cfg dir (fst (cleanup_unlink line (p # ps) w)) (snd (cleanup_unlink line (p # ps) w))
      = runAlone E cfg dir (AwaitUnlink line ps) (w\<lparr>lfs := unlinkOne (lfs w) p\<rparr>)" by simp
  also have "\<dots> = runAlone E cfg dir (fst (cleanup_unlink line ps (w\<lparr>lfs := unlinkOne (lfs w) p\<rparr>)))
        (snd (cleanup_unlink line ps (w\<lparr>lfs := unlinkOne (lfs w) p\<rparr>)))"
    by (simp add: run_step)
  also have "\<dots> = runAlone E cfg dir (AwaitRotate line)
        (w\<lparr>lfs := unlinkOne (lfs w) p\<rparr>\<lparr>lfs := unlinkAll (lfs (w\<lparr>lfs := unlinkOne (lfs w) p\<rparr>)) ps\<rparr>)"
    by (rule Cons.IH)
  finally show ?case by simp
qed

lemma run_cleanup:
  "runAlone E cfg dir (AwaitReaddir line (fs_readdir (called (Readdir dir) fs) dir))
       (w\<lparr>lfs := called (Readdir dir) fs\<rparr>)
     = runAlone E cfg dir (AwaitRotate line) (w\<lparr>lfs := cleanupAlone cfg dir fs\<rparr>)"
  by (simp add: run_step cleanup_afterReaddir_def cleanup_afterStats_def cleanupAlone_def Let_def
        run_unlink split: option.splits)

lemma run_afterInit:
  "runAlone E cfg dir (fst (write_afterInit E cfg dir line w)) (snd (write_afterInit E cfg dir line w))
     = runAlone E cfg dir (AwaitRotate line)
         (if shouldRotateLog cfg w (length line) then rotateAlone E cfg dir w else w)"
proof (cases "shouldRotateLog cfg w (length line)")
  case False
  then show ?thesis
    by (simp add: write_afterInit_def run_rotate append_call_def run_append append_return_def Let_def
          split: option.splits)
next
  case True
  show ?thesis
  proof (cases "currentLogFile (service w) = []")
    case e: True
    with True show ?thesis by (simp add: write_afterInit_def rotate_call_def rotateAlone_def)
  next
    case ne: False
    let ?w1 = "w\<lparr>service := (service w)\<lparr>currentLogFile := freshLogFile E dir (tick w),
                  currentLogFileSize := 0\<rparr>, tick := tick w + 1\<rparr>"
    have "runAlone E cfg dir (fst (write_afterInit E cfg dir line w)) (snd (write_afterInit E cfg dir line w))
      = runAlone E cfg dir (AwaitReaddir line (fs_readdir (called (Readdir dir) (lfs w)) dir))
          (?w1\<lparr>lfs := called (Readdir dir) (lfs w)\<rparr>)"
      using True ne by (cases w) (simp add: write_afterInit_def rotate_call_def Let_def)
    also have "\<dots> = runAlone E cfg dir (AwaitRotate line) (?w1\<lparr>lfs := cleanupAlone cfg dir (lfs w)\<rparr>)"
      by (rule run_cleanup)
    finally show ?thesis using True ne by (cases w) (simp add: rotateAlone_def Let_def)
  qed
qed

lemma run_init:
  "runAlone E cfg dir (fst (initialize_call dir (Some line) w)) (snd (initialize_call dir (Some line) w))
     = runAlone E cfg dir (AwaitInit line) (initAlone E dir w)"
  by (cases w) (simp add: initialize_call_def run_Mkdir run_Stat initialize_afterMkdir_def initialize_afterStat_def
        initialize_return_def initAlone_def Let_def called_def)

lemma run_init_only:
  "runAlone E cfg dir (fst (initialize_call dir None w)) (snd (initialize_call dir None w))
     = initAlone E dir w"
  by (cases w) (simp add: initialize_call_def run_Mkdir run_Stat run_Done initialize_afterMkdir_def initialize_afterStat_def
        initialize_return_def initAlone_def Let_def called_def)

lemma run_Start: "runAlone E cfg dir (Start line) w = writeAlone E cfg dir line w"
proof -
  let ?w1 = "if currentLogFile (service w) = [] then initAlone E dir w else w"
  have "runAlone E cfg dir (Start line) w
      = runAlone E cfg dir (fst (write_afterInit E cfg dir line ?w1)) (snd (write_afterInit E cfg dir line ?w1))"
    by (simp add: run_StartT run_init run_step [where t = "AwaitInit line"])
  also have "\<dots> = runAlone E cfg dir (AwaitRotate line)
         (if shouldRotateLog cfg ?w1 (length line) then rotateAlone E cfg dir ?w1 else ?w1)"
    by (rule run_afterInit)
  finally show ?thesis by (simp add: run_rotate writeAlone_def Let_def)
qed

lemma writeToFile_alone:
  "writeToFile E ser cfg dir w e = writeAlone E cfg dir (ser e @ [CHR 0x0A]) w"
  by (simp add: writeToFile_def run_Start)

lemma newLoggingService_alone:
  "newLoggingService E cfg dir fs t =
     (let w = \<lparr>service = \<lparr>inMemoryLogs = [], currentLogFile = [], currentLogFileSize = 0\<rparr>,
               lfs = fs, tick = t\<rparr>
      in if logLevel cfg \<noteq> none then initAlone E dir w else w)"
  by (simp add: newLoggingService_def Let_def case_prod_beta run_init_only)

section \<open>The audit logger: levels\<close>

lemma levels_index:
  "indexOf [debug, info, warn, error] debug = 0"
  "indexOf [debug, info, warn, error] info = 1"
  "indexOf [debug, info, warn, error] warn = 2"
  "indexOf [debug, info, warn, error] error = 3"
  "indexOf [debug, info, warn, error] none = - 1"
  by (simp_all add: Let_def)

lemma unlinkAll_service_trace: "\<exists>cs. trace (unlinkAll fs ps) = trace fs @ cs"
proof (induction ps arbitrary: fs)
  case Nil
  then show ?case by simp
next
  case (Cons p ps)
  let ?fs2 = "unlinkOne fs p"
  have "trace ?fs2 = trace fs @ [UnlinkFile p]"
    by (simp add: unlinkOne_def Let_def called_def fs_unlink_def split: option.splits)
  moreover from Cons.IH[of ?fs2] obtain cs where "trace (unlinkAll ?fs2 ps) = trace ?fs2 @ cs" by auto
  ultimately show ?case by (simp add: Let_def)
qed

lemma cleanup_trace: "\<exists>cs. trace (cleanupAlone cfg dir fs) = trace fs @ cs"
proof -
  have u: "\<And>fs' ps. trace fs' = trace fs @ xs \<Longrightarrow> \<exists>cs. trace (unlinkAll fs' ps) = trace fs @ cs" for xs
    using unlinkAll_service_trace by (metis append.assoc)
  show ?thesis
    unfolding cleanupAlone_def Let_def
    by (auto simp: called_def split: option.splits intro!: u)
qed

lemma init_trace: "\<exists>cs. trace (lfs (initAlone E dir w)) = trace (lfs w) @ cs"
  by (simp add: initAlone_def Let_def called_def)

lemma rotate_trace: "\<exists>cs. trace (lfs (rotateAlone E cfg dir w)) = trace (lfs w) @ cs"
  using cleanup_trace[of cfg dir "lfs w"] by (simp add: rotateAlone_def Let_def)

lemma init_memory: "inMemoryLogs (service (initAlone E dir w)) = inMemoryLogs (service w)"
  by (simp add: initAlone_def Let_def)

lemma rotate_memory: "inMemoryLogs (service (rotateAlone E cfg dir w)) = inMemoryLogs (service w)"
  by (simp add: rotateAlone_def Let_def)

lemma fs_appendFile_trace: "fs_appendFile fs p data now = Some fs' \<Longrightarrow> trace fs' = trace fs"
  by (auto simp: fs_appendFile_def split: if_splits option.splits)

lemma writeToFile_memory:
  "inMemoryLogs (service (writeToFile E ser cfg dir w e)) = inMemoryLogs (service w)"
  by (simp add: writeToFile_alone writeAlone_def Let_def init_memory rotate_memory
        split: option.splits)

lemma writeToFile_trace:
  "\<exists>cs. trace (lfs (writeToFile E ser cfg dir w e)) =
          trace (lfs w) @ cs @ [AppendFile (currentLogFile (service (writeToFile E ser cfg dir w e)))]"
proof -
  let ?w1 = "if currentLogFile (service w) = [] then initAlone E dir w else w"
  let ?n = "length (ser e @ [CHR 0x0A])"
  let ?w2 = "if shouldRotateLog cfg ?w1 ?n then rotateAlone E cfg dir ?w1 else ?w1"
  obtain c1 where c1: "trace (lfs ?w1) = trace (lfs w) @ c1"
    using init_trace[of E dir w] by (cases "currentLogFile (service w) = []") auto
  obtain c2 where c2: "trace (lfs ?w2) = trace (lfs ?w1) @ c2"
    using rotate_trace[of E cfg dir ?w1] by (cases "shouldRotateLog cfg ?w1 ?n") auto
  have "trace (lfs (writeToFile E ser cfg dir w e)) =
          trace (lfs ?w2) @ [AppendFile (currentLogFile (service ?w2))]"
    and "currentLogFile (service (writeToFile E ser cfg dir w e)) = currentLogFile (service ?w2)"
    by (auto simp: writeToFile_alone writeAlone_def Let_def called_def fs_appendFile_trace
          split: option.splits)
  with c1 c2 show ?thesis by simp
qed

text \<open>
  Claim C8.  The level of an entry is error for the result \<open>failed\<close>, warn for \<open>rejected\<close>,
  debug for another entry whose reason starts with \<open>DEBUG:\<close>, and info otherwise.  With a
  configured level other than \<open>none\<close>, an entry below that level leaves the logger and the
  disk exactly as they were; an entry at or above it becomes the last entry of the in-memory
  tail, which keeps the latest 1000, and the write ends with an append to the active log
  file.  With the level \<open>none\<close> every entry is dropped and the constructor does not touch the
  log directory.
\<close>

theorem log_level_filtering:
  "(result e = Failed \<longrightarrow> entryLevelIndex e = indexOf [debug, info, warn, error] error)
   \<and> (result e = Rejected \<longrightarrow> entryLevelIndex e = indexOf [debug, info, warn, error] warn)
   \<and> (result e = Success \<and> (\<exists>r. logReason e = Some (''DEBUG:'' @ r)) \<longrightarrow>
        entryLevelIndex e = indexOf [debug, info, warn, error] debug)
   \<and> (result e = Success \<and> \<not> (\<exists>r. logReason e = Some (''DEBUG:'' @ r)) \<longrightarrow>
        entryLevelIndex e = indexOf [debug, info, warn, error] info)
   \<and> (logLevel cfg \<noteq> none \<and> entryLevelIndex e < indexOf [debug, info, warn, error] (logLevel cfg) \<longrightarrow>
        writeLogEntry E ser cfg dir w e = w)
   \<and> (logLevel cfg \<noteq> none \<and> indexOf [debug, info, warn, error] (logLevel cfg) \<le> entryLevelIndex e \<longrightarrow>
        inMemoryLogs (service (writeLogEntry E ser cfg dir w e)) =
          (if length (inMemoryLogs (service w)) < 1000 then inMemoryLogs (service w) @ [e]
           else drop (length (inMemoryLogs (service w)) + 1 - 1000) (inMemoryLogs (service w) @ [e]))
      \<and> last (inMemoryLogs (service (writeLogEntry E ser cfg dir w e))) = e
      \<and> (\<exists>cs. trace (lfs (writeLogEntry E ser cfg dir w e)) =
            trace (lfs w) @ cs @
              [AppendFile (currentLogFile (service (writeLogEntry E ser cfg dir w e)))]))
   \<and> (logLevel cfg = none \<longrightarrow>
        writeLogEntry E ser cfg dir w e = w
      \<and> newLoggingService E cfg dir fs t =
          \<lparr>service = \<lparr>inMemoryLogs = [], currentLogFile = [], currentLogFileSize = 0\<rparr>,
           lfs = fs, tick = t\<rparr>)"
proof (intro conjI impI)
  show "result e = Failed \<Longrightarrow> entryLevelIndex e = indexOf [debug, info, warn, error] error"
    by (simp add: entryLevelIndex_def)
  show "result e = Rejected \<Longrightarrow> entryLevelIndex e = indexOf [debug, info, warn, error] warn"
    by (simp add: entryLevelIndex_def)
  show "result e = Success \<and> (\<exists>r. logReason e = Some (''DEBUG:'' @ r)) \<Longrightarrow>
        entryLevelIndex e = indexOf [debug, info, warn, error] debug"
    by (auto simp: entryLevelIndex_def startsWith_def)
  show "result e = Success \<and> \<not> (\<exists>r. logReason e = Some (''DEBUG:'' @ r)) \<Longrightarrow>
        entryLevelIndex e = indexOf [debug, info, warn, error] info"
    by (auto simp: entryLevelIndex_def startsWith_iff split: option.splits)
  show "logLevel cfg \<noteq> none \<and> entryLevelIndex e < indexOf [debug, info, warn, error] (logLevel cfg) \<Longrightarrow>
        writeLogEntry E ser cfg dir w e = w"
    by (simp add: writeLogEntry_def shouldLog_def Let_def del: indexOf.simps)
  show "logLevel cfg = none \<Longrightarrow> writeLogEntry E ser cfg dir w e = w"
    by (simp add: writeLogEntry_def)
  show "logLevel cfg = none \<Longrightarrow> newLoggingService E cfg dir fs t =
          \<lparr>service = \<lparr>inMemoryLogs = [], currentLogFile = [], currentLogFileSize = 0\<rparr>,
           lfs = fs, tick = t\<rparr>"
    by (simp add: newLoggingService_def)
next
  assume a: "logLevel cfg \<noteq> none \<and> indexOf [debug, info, warn, error] (logLevel cfg) \<le> entryLevelIndex e"
  let ?kept = "if length (inMemoryLogs (service w) @ [e]) > 1000
               then drop (length (inMemoryLogs (service w) @ [e]) - 1000) (inMemoryLogs (service w) @ [e])
               else inMemoryLogs (service w) @ [e]"
  let ?w0 = "w\<lparr>service := (service w)\<lparr>inMemoryLogs := ?kept\<rparr>\<rparr>"
  from a have wl: "writeLogEntry E ser cfg dir w e = writeToFile E ser cfg dir ?w0 e"
    by (simp add: writeLogEntry_def shouldLog_def Let_def del: indexOf.simps)
  have m: "inMemoryLogs (service (writeLogEntry E ser cfg dir w e)) = ?kept"
    by (simp add: wl writeToFile_memory)
  show "inMemoryLogs (service (writeLogEntry E ser cfg dir w e)) =
          (if length (inMemoryLogs (service w)) < 1000 then inMemoryLogs (service w) @ [e]
           else drop (length (inMemoryLogs (service w)) + 1 - 1000) (inMemoryLogs (service w) @ [e]))"
    unfolding m by auto
  show "last (inMemoryLogs (service (writeLogEntry E ser cfg dir w e))) = e"
    unfolding m by (auto simp: last_drop)
  show "\<exists>cs. trace (lfs (writeLogEntry E ser cfg dir w e)) =
            trace (lfs w) @ cs @
              [AppendFile (currentLogFile (service (writeLogEntry E ser cfg dir w e)))]"
    using writeToFile_trace[of E ser cfg dir ?w0 e] by (simp add: wl)
qed

section \<open>The audit logger: rotation and retention\<close>























lemma fresh_nonempty: "freshLogFile E dir t \<noteq> []"
  by (simp add: freshLogFile_def pathJoin_def)









lemma newLoggingService_retention:
  assumes "logLevel cfg \<noteq> none" and "healthy fs"
  shows "length (logFilesOnDisk dir fs) \<le> keptFiles cfg \<Longrightarrow>
           withinRetention cfg dir (newLoggingService E cfg dir fs t)"
    and "files (lfs (newLoggingService E cfg dir fs t)) = files fs"
    and "inMemoryLogs (service (newLoggingService E cfg dir fs t)) = []"
    and "map_of (files fs) (freshLogFile E dir t) = None \<Longrightarrow>
           currentLogFileSize (service (newLoggingService E cfg dir fs t)) = 0"
    and "broken (lfs (newLoggingService E cfg dir fs t)) = broken fs"
    and "currentLogFile (service (newLoggingService E cfg dir fs t)) = freshLogFile E dir t"
    and "tick (newLoggingService E cfg dir fs t) = t + 1"
proof -
  from assms(2) have nb: "\<not> broken fs (Mkdir dir)" by (simp add: healthy_def)
  have n: "newLoggingService E cfg dir fs t =
     \<lparr>service = \<lparr>inMemoryLogs = [], currentLogFile = freshLogFile E dir t,
          currentLogFileSize = (case fs_stat (called (Stat (freshLogFile E dir t)) (called (Mkdir dir) fs))
                (freshLogFile E dir t) of Some st \<Rightarrow> length (content st) | None \<Rightarrow> 0)\<rparr>,
       lfs = called (Stat (freshLogFile E dir t)) (called (Mkdir dir) fs), tick = t + 1\<rparr>"
    using assms(1) nb
    by (simp add: newLoggingService_alone initAlone_def Let_def called_def)
  show "files (lfs (newLoggingService E cfg dir fs t)) = files fs" by (simp add: n called_def)
  show "broken (lfs (newLoggingService E cfg dir fs t)) = broken fs" by (simp add: n called_def)
  show "currentLogFile (service (newLoggingService E cfg dir fs t)) = freshLogFile E dir t"
    by (simp add: n)
  show "tick (newLoggingService E cfg dir fs t) = t + 1" by (simp add: n)
  have "logFilesOnDisk dir (lfs (newLoggingService E cfg dir fs t)) = logFilesOnDisk dir fs"
    by (simp add: n called_def logFilesOnDisk_def)
  then show "length (logFilesOnDisk dir fs) \<le> keptFiles cfg \<Longrightarrow>
           withinRetention cfg dir (newLoggingService E cfg dir fs t)"
    by (simp add: withinRetention_def n fresh_nonempty)
  show "inMemoryLogs (service (newLoggingService E cfg dir fs t)) = []" by (simp add: n)
  show "map_of (files fs) (freshLogFile E dir t) = None \<Longrightarrow>
           currentLogFileSize (service (newLoggingService E cfg dir fs t)) = 0"
    by (simp add: n fs_stat_def called_def)
qed


lemma newLoggingService_trace:
  "set (trace (lfs (newLoggingService E cfg dir fs t))) - set (trace fs)
     \<subseteq> {Mkdir dir, Stat (freshLogFile E dir t)}"
  by (auto simp: newLoggingService_alone initAlone_def Let_def called_def)





lemma plain_level: "entryLevelIndex (plainEntry Success) = 1" "entryLevelIndex (plainEntry Failed) = 3"
  by (simp_all add: entryLevelIndex_def plainEntry_def)





lemma tiny_consts:
  "logLevel tinyCfg = info" "maxFilesOf tinyCfg = 1" "maxSizeOf tinyCfg = 2" "keptFiles tinyCfg = 1"
  by (simp_all add: tinyCfg_def retentionCfg_def defaultsWith_def maxFilesOf_def maxSizeOf_def
        keptFiles_def)










text \<open>
  Calls that overlap are another matter.  Two entries are logged without awaiting the first,
  and the two tasks are resumed in turn.  Both find the size exceeded and both rotate; the
  name that the first one generated is overwritten before it appends, so both lines go to
  the file of the second, no file of the first comes to exist, and the counter ends at the
  size of two lines, above the maximum of two bytes.
\<close>

lemma overlapping_writes_share_a_file:
  "fst (interleave quietEnv tinyCfg ''logs'' [0, 1, 0, 1, 0, 1, 0, 1]
          [Start (''{}'' @ [CHR 0x0A]), Start (''{}'' @ [CHR 0x0A])]
          (newLoggingService quietEnv tinyCfg ''logs'' emptyDisk 0)) = [Done, Done]
   \<and> files (lfs (snd (interleave quietEnv tinyCfg ''logs'' [0, 1, 0, 1, 0, 1, 0, 1]
          [Start (''{}'' @ [CHR 0x0A]), Start (''{}'' @ [CHR 0x0A])]
          (newLoggingService quietEnv tinyCfg ''logs'' emptyDisk 0))))
       = [(freshLogFile quietEnv ''logs'' 2,
           \<lparr>mtime = 4, content = ''{}'' @ [CHR 0x0A] @ ''{}'' @ [CHR 0x0A]\<rparr>)]
   \<and> currentLogFileSize (service (snd (interleave quietEnv tinyCfg ''logs'' [0, 1, 0, 1, 0, 1, 0, 1]
          [Start (''{}'' @ [CHR 0x0A]), Start (''{}'' @ [CHR 0x0A])]
          (newLoggingService quietEnv tinyCfg ''logs'' emptyDisk 0)))) = 6
   \<and> maxLogFileSize tinyCfg = Some 2"
proof -
  let ?l = "''{}'' @ [CHR 0x0A]"
  have lt: "logLevel tinyCfg \<noteq> none" by (simp add: tiny_consts)
  have c: "maxLogFileSize tinyCfg = Some 2" "maxLogFiles tinyCfg = Some 1"
    by (simp_all add: tinyCfg_def retentionCfg_def defaultsWith_def)
  have n: "newLoggingService quietEnv tinyCfg ''logs'' emptyDisk 0 =
      \<lparr>service = \<lparr>inMemoryLogs = [], currentLogFile = freshLogFile quietEnv ''logs'' 0,
          currentLogFileSize = 0\<rparr>,
       lfs = \<lparr>files = [], broken = (\<lambda>c. False),
          trace = [Mkdir ''logs'', Stat (freshLogFile quietEnv ''logs'' 0)]\<rparr>, tick = 1\<rparr>"
    using lt by (simp add: newLoggingService_alone initAlone_def Let_def called_def emptyDisk_def
          fs_stat_def)
  have cl: "clockMs (quietEnv t) = t" for t by (simp add: quietEnv_def)
  have i: "interleave quietEnv tinyCfg ''logs'' [0, 1, 0, 1, 0, 1, 0, 1] [Start ?l, Start ?l]
          (newLoggingService quietEnv tinyCfg ''logs'' emptyDisk 0) =
      ([Done, Done],
       \<lparr>service = \<lparr>inMemoryLogs = [], currentLogFile = freshLogFile quietEnv ''logs'' 2,
          currentLogFileSize = 6\<rparr>,
       lfs = \<lparr>files = [(freshLogFile quietEnv ''logs'' 2, \<lparr>mtime = 4, content = ?l @ ?l\<rparr>)],
          broken = (\<lambda>c. False),
          trace = [Mkdir ''logs'', Stat (freshLogFile quietEnv ''logs'' 0), Readdir ''logs'',
                   Readdir ''logs'', AppendFile (freshLogFile quietEnv ''logs'' 2),
                   AppendFile (freshLogFile quietEnv ''logs'' 2)]\<rparr>, tick = 5\<rparr>)"
    unfolding n
    by (simp add: write_afterInit_def shouldRotateLog_def rotate_call_def cleanup_afterReaddir_def
          append_call_def append_return_def fs_readdir_def fs_appendFile_def called_def Let_def c cl
          fresh_nonempty List.map_filter_simps numeral_2_eq_2[symmetric])
  show ?thesis unfolding i by (simp add: c)
qed

section \<open>The audit logger: an example of the levels\<close>

theorem log_level_filtering_witness:
  "writeLogEntry quietEnv lineOf ((defaultsWith [] [])\<lparr>logLevel := warn\<rparr>) ''logs''
       (newLoggingService quietEnv ((defaultsWith [] [])\<lparr>logLevel := warn\<rparr>) ''logs'' emptyDisk 0)
       (plainEntry Success)
     = newLoggingService quietEnv ((defaultsWith [] [])\<lparr>logLevel := warn\<rparr>) ''logs'' emptyDisk 0
   \<and> inMemoryLogs (service (writeLogEntry quietEnv lineOf ((defaultsWith [] [])\<lparr>logLevel := warn\<rparr>) ''logs''
       (newLoggingService quietEnv ((defaultsWith [] [])\<lparr>logLevel := warn\<rparr>) ''logs'' emptyDisk 0)
       (plainEntry Failed)))
     = [plainEntry Failed]
   \<and> newLoggingService quietEnv ((defaultsWith [] [])\<lparr>logLevel := none\<rparr>) ''logs'' emptyDisk 0
     = \<lparr>service = \<lparr>inMemoryLogs = [], currentLogFile = [], currentLogFileSize = 0\<rparr>,
        lfs = emptyDisk, tick = 0\<rparr>
   \<and> entryLevelIndex (plainEntry Failed) = 3"
proof -
  let ?c = "(defaultsWith [] [])\<lparr>logLevel := warn\<rparr>"
  let ?n = "(defaultsWith [] [])\<lparr>logLevel := none\<rparr>"
  let ?w = "newLoggingService quietEnv ?c ''logs'' emptyDisk 0"
  have l: "logLevel ?c \<noteq> none" "logLevel ?c = warn" "logLevel ?n = none" by simp_all
  have h0: "healthy emptyDisk" by (simp add: healthy_def emptyDisk_def)
  note n = newLoggingService_retention[OF l(1) h0, where dir="''logs''" and E=quietEnv and t=0]
  have r1: "result (plainEntry Failed) = Failed" by (simp add: plainEntry_def)
  from log_level_filtering[of "plainEntry Success" ?c quietEnv lineOf "''logs''" ?w emptyDisk 0]
    log_level_filtering[of "plainEntry Failed" ?c quietEnv lineOf "''logs''" ?w emptyDisk 0]
    log_level_filtering[of "plainEntry Failed" ?n quietEnv lineOf "''logs''" ?w emptyDisk 0]
  show ?thesis
    by (simp add: l levels_index plain_level n(3) r1 del: indexOf.simps)
qed

end
